(* ===== verification/Prelude.thy ===== *)
theory Prelude
  imports Main "HOL-Library.Word"
begin

unbundle bit_operations_syntax

text \<open>
  Shared vocabulary of the development: the widths of the machine integers the
  C++ sources use, raw byte buffers with their big-endian readers and writers, and the
  lemmas on fields that the packets of the components below are read and written with.
\<close>

section \<open>Machine types\<close>

type_synonym byte = "8 word"
type_synonym u16 = "16 word"
type_synonym u32 = "32 word"
type_synonym u64 = "64 word"

text \<open>\<open>time_t\<close> is a signed count of seconds; the model keeps it as an unbounded integer.\<close>
type_synonym time_t = int

named_theorems wire_simps \<open>readers and writers of big-endian fields\<close>
named_theorems const_defs \<open>the named constants of the sources\<close>

section \<open>Big-endian fields\<close>

text \<open>
  \<open>be16toh(*(uint16_t *)p)\<close> and \<open>be32toh(*(uint32_t *)p)\<close> read the bytes at \<open>p\<close> with the
  most significant byte first, whatever the host order; \<open>htobe16\<close> and \<open>htobe32\<close> followed
  by a copy write them in that order.
\<close>

definition be16 :: "byte list \<Rightarrow> nat \<Rightarrow> u16" where
  "be16 buf i = push_bit 8 (ucast (buf ! i)) OR ucast (buf ! (i + 1))"

definition be32 :: "byte list \<Rightarrow> nat \<Rightarrow> u32" where
  "be32 buf i = push_bit 24 (ucast (buf ! i)) OR push_bit 16 (ucast (buf ! (i + 1)))
     OR push_bit 8 (ucast (buf ! (i + 2))) OR ucast (buf ! (i + 3))"

definition put_be16 :: "u16 \<Rightarrow> byte list" where
  "put_be16 w = [ucast (drop_bit 8 w), ucast w]"

definition put_be32 :: "u32 \<Rightarrow> byte list" where
  "put_be32 w = [ucast (drop_bit 24 w), ucast (drop_bit 16 w), ucast (drop_bit 8 w), ucast w]"

lemma length_put_be [simp]: "length (put_be16 w) = 2" "length (put_be32 v) = 4"
  by (simp_all add: put_be16_def put_be32_def)

lemma be16_put_be16 [wire_simps]: "be16 (put_be16 w @ xs) 0 = w"
  by (rule bit_word_eqI)
    (auto simp: be16_def put_be16_def bit_simps)

lemma be32_put_be32 [wire_simps]: "be32 (put_be32 w @ xs) 0 = w"
proof (rule bit_word_eqI)
  fix n assume "n < LENGTH(32)"
  then show "bit (be32 (put_be32 w @ xs) 0) n = bit w n"
    by (cases "n < 8"; cases "n < 16"; cases "n < 24")
      (auto simp: be32_def put_be32_def bit_simps)
qed

lemma be_append_right [wire_simps]:
  "length xs \<le> i \<Longrightarrow> be16 (xs @ ys) i = be16 ys (i - length xs)"
  "length xs \<le> i \<Longrightarrow> be32 (xs @ ys) i = be32 ys (i - length xs)"
  by (simp_all add: be16_def be32_def nth_append Suc_diff_le)

lemma be_append_left [wire_simps]:
  "i + 1 < length xs \<Longrightarrow> be16 (xs @ ys) i = be16 xs i"
  "i + 3 < length xs \<Longrightarrow> be32 (xs @ ys) i = be32 xs i"
  by (simp_all add: be16_def be32_def nth_append)

text \<open>A packet of 32-bit fields.\<close>

lemma be32_concat: "i < length ws \<Longrightarrow> be32 (concat (map put_be32 ws) @ xs) (4 * i) = ws ! i"
proof (induction ws arbitrary: i)
  case (Cons w ws)
  then show ?case by (cases i) (simp_all add: be32_put_be32 be_append_right)
qed simp

end
