(* ===== verification/Wire.thy ===== *)
theory Wire
  imports Prelude
begin

text \<open>
  The wire format: packet types, the readers of \<open>common.c\<close>, the extended keepalive, the
  padding of small datagrams (\<open>pad_sendto.h\<close>), the classification of send errors
  (\<open>forward_policy.h\<close>) and the constant-time comparison of \<open>network_utils.cpp\<close>.
  A C buffer with its length argument is a byte list and an integer \<open>n\<close>, the number of
  bytes the caller says it holds.
\<close>

section \<open>Constants of common.h\<close>

definition MTU :: nat where [const_defs]: "MTU = 1500"

definition SRT_TYPE_HANDSHAKE :: u16 where [const_defs]: "SRT_TYPE_HANDSHAKE = 0x8000"
definition SRT_TYPE_ACK :: u16 where [const_defs]: "SRT_TYPE_ACK = 0x8002"
definition SRT_TYPE_NAK :: u16 where [const_defs]: "SRT_TYPE_NAK = 0x8003"
definition SRT_TYPE_SHUTDOWN :: u16 where [const_defs]: "SRT_TYPE_SHUTDOWN = 0x8005"

definition SRTLA_TYPE_KEEPALIVE :: u16 where [const_defs]: "SRTLA_TYPE_KEEPALIVE = 0x9000"
definition SRTLA_TYPE_ACK :: u16 where [const_defs]: "SRTLA_TYPE_ACK = 0x9100"
definition SRTLA_TYPE_REG1 :: u16 where [const_defs]: "SRTLA_TYPE_REG1 = 0x9200"
definition SRTLA_TYPE_REG2 :: u16 where [const_defs]: "SRTLA_TYPE_REG2 = 0x9201"
definition SRTLA_TYPE_REG3 :: u16 where [const_defs]: "SRTLA_TYPE_REG3 = 0x9202"
definition SRTLA_TYPE_REG_ERR :: u16 where [const_defs]: "SRTLA_TYPE_REG_ERR = 0x9210"
definition SRTLA_TYPE_REG_NGP :: u16 where [const_defs]: "SRTLA_TYPE_REG_NGP = 0x9211"
definition SRTLA_TYPE_REG_NAK :: u16 where [const_defs]: "SRTLA_TYPE_REG_NAK = 0x9212"

definition SRTLA_KEEPALIVE_MAGIC :: u16 where [const_defs]: "SRTLA_KEEPALIVE_MAGIC = 0xC01F"
definition SRTLA_KEEPALIVE_EXT_LEN :: int where [const_defs]: "SRTLA_KEEPALIVE_EXT_LEN = 38"
definition SRTLA_KEEPALIVE_EXT_VERSION :: u16
  where [const_defs]: "SRTLA_KEEPALIVE_EXT_VERSION = 0x0001"

definition SRT_MIN_LEN :: int where [const_defs]: "SRT_MIN_LEN = 16"
definition SRTLA_ID_LEN :: nat where [const_defs]: "SRTLA_ID_LEN = 256"
definition SRTLA_TYPE_REG1_LEN :: int where [const_defs]: "SRTLA_TYPE_REG1_LEN = 258"
definition SRTLA_TYPE_REG2_LEN :: int where [const_defs]: "SRTLA_TYPE_REG2_LEN = 258"
definition SRTLA_TYPE_REG3_LEN :: int where [const_defs]: "SRTLA_TYPE_REG3_LEN = 2"
definition SRT_REJECTION_CODE_BASE :: u32 where [const_defs]: "SRT_REJECTION_CODE_BASE = 1000"

text \<open>\<open>sizeof(srt_header_t)\<close>, \<open>sizeof(srt_handshake_t)\<close> and the offset of
  \<open>handshake_type\<close> in the packed struct.\<close>
definition srt_header_size :: int where [const_defs]: "srt_header_size = 16"
definition srt_handshake_size :: int where [const_defs]: "srt_handshake_size = 64"
definition handshake_type_offset :: nat where [const_defs]: "handshake_type_offset = 36"

section \<open>Ports\<close>

text \<open>\<open>strtol\<close> in base 10: leading white space, a sign, then digits; the value saturates at the range of
  \<open>long\<close>. \<open>parse_port\<close> stores it in an \<open>int\<close>.\<close>

definition is_space :: "char \<Rightarrow> bool" where
  "is_space c \<longleftrightarrow> of_char c = (32 :: nat) \<or> (9 \<le> (of_char c :: nat) \<and> (of_char c :: nat) \<le> 13)"

definition is_digit :: "char \<Rightarrow> bool" where
  "is_digit c \<longleftrightarrow> 48 \<le> (of_char c :: nat) \<and> (of_char c :: nat) \<le> 57"

definition strtol :: "string \<Rightarrow> int" where
  "strtol str =
     (let s = dropWhile is_space str;
          (neg, s) = (case s of [] \<Rightarrow> (False, s)
                      | c # cs \<Rightarrow> if c = CHR 0x2D then (True, cs) else if c = CHR 0x2B then (False, cs) else (False, s));
          n = foldl (\<lambda>a c. 10 * a + (of_char c - 48)) 0 (takeWhile is_digit s);
          v = (if neg then - n else n)
      in max (- (2 ^ 63)) (min (2 ^ 63 - 1) v))"

definition parse_port :: "string \<Rightarrow> int" where
  "parse_port port_str =
     (let port = sint (word_of_int (strtol port_str) :: u32)
      in if port \<le> 0 \<or> port > 65535 then -2 else port)"

text \<open>A number beyond the range of \<open>int\<close> is reduced modulo \<open>2 ^ 32\<close> before it is checked.\<close>

lemma parse_port_wraps: "parse_port ''4294967376'' = 80" "parse_port ''80'' = 80" "parse_port ''65536'' = -2"
  by (simp_all add: parse_port_def strtol_def is_space_def is_digit_def)

section \<open>Readers of common.c\<close>

definition get_srt_sn :: "byte list \<Rightarrow> int \<Rightarrow> int" where
  "get_srt_sn pkt n =
     (if n < 4 then -1
      else let sn = be32 pkt 0 in
        if sn AND push_bit 31 1 = 0 then sint sn else -1)"

definition get_srt_type :: "byte list \<Rightarrow> int \<Rightarrow> u16" where
  "get_srt_type pkt n = (if n < 2 then 0 else be16 pkt 0)"

definition is_srt_ack :: "byte list \<Rightarrow> int \<Rightarrow> bool" where
  "is_srt_ack pkt n \<longleftrightarrow> get_srt_type pkt n = SRT_TYPE_ACK"

definition is_srt_nak :: "byte list \<Rightarrow> int \<Rightarrow> bool" where
  "is_srt_nak pkt n \<longleftrightarrow> get_srt_type pkt n = SRT_TYPE_NAK"

definition is_srtla_keepalive :: "byte list \<Rightarrow> int \<Rightarrow> bool" where
  "is_srtla_keepalive pkt n \<longleftrightarrow> get_srt_type pkt n = SRTLA_TYPE_KEEPALIVE"

definition is_srt_shutdown :: "byte list \<Rightarrow> int \<Rightarrow> bool" where
  "is_srt_shutdown pkt n \<longleftrightarrow> get_srt_type pkt n = SRT_TYPE_SHUTDOWN"

definition is_srt_handshake_reject :: "byte list \<Rightarrow> int \<Rightarrow> bool" where
  "is_srt_handshake_reject pkt n \<longleftrightarrow>
     (if n < srt_handshake_size then False
      else if get_srt_type pkt n \<noteq> SRT_TYPE_HANDSHAKE then False
      else let hs_type = be32 pkt handshake_type_offset in
        SRT_REJECTION_CODE_BASE \<le> hs_type \<and> hs_type < 0x80000000)"

definition is_srtla_reg1 :: "byte list \<Rightarrow> int \<Rightarrow> bool" where
  "is_srtla_reg1 pkt len \<longleftrightarrow>
     (if len \<noteq> SRTLA_TYPE_REG1_LEN then False else get_srt_type pkt len = SRTLA_TYPE_REG1)"

definition is_srtla_reg2 :: "byte list \<Rightarrow> int \<Rightarrow> bool" where
  "is_srtla_reg2 pkt len \<longleftrightarrow>
     (if len \<noteq> SRTLA_TYPE_REG2_LEN then False else get_srt_type pkt len = SRTLA_TYPE_REG2)"

definition is_srtla_reg3 :: "byte list \<Rightarrow> int \<Rightarrow> bool" where
  "is_srtla_reg3 pkt len \<longleftrightarrow>
     (if len \<noteq> SRTLA_TYPE_REG3_LEN then False else get_srt_type pkt len = SRTLA_TYPE_REG3)"

section \<open>The clock\<close>

text \<open>\<open>clock_gettime\<close> gives seconds and nanoseconds, or fails.\<close>
type_synonym timespec = "time_t \<times> int"

definition get_seconds :: "timespec option \<Rightarrow> time_t option" where
  "get_seconds ts = map_option fst ts"

definition get_ms :: "timespec option \<Rightarrow> u64 option" where
  "get_ms ts =
     map_option (\<lambda>(tv_sec, tv_nsec). word_of_int tv_sec * 1000 + word_of_int tv_nsec div 1000 div 1000) ts"

section \<open>Extended keepalives\<close>

record connection_info =
  ci_conn_id :: u32
  ci_window :: int
  ci_in_flight :: int
  ci_rtt_ms :: u32
  ci_nak_count :: u32
  ci_bitrate_bytes_per_sec :: u32

definition parse_keepalive_conn_info :: "byte list \<Rightarrow> int \<Rightarrow> connection_info option" where
  "parse_keepalive_conn_info buf len =
     (if len < SRTLA_KEEPALIVE_EXT_LEN then None
      else if be16 buf 0 \<noteq> SRTLA_TYPE_KEEPALIVE then None
      else if be16 buf 10 \<noteq> SRTLA_KEEPALIVE_MAGIC then None
      else if be16 buf 12 \<noteq> SRTLA_KEEPALIVE_EXT_VERSION then None
      else Some \<lparr> ci_conn_id = be32 buf 14,
                  ci_window = sint (be32 buf 18),
                  ci_in_flight = sint (be32 buf 22),
                  ci_rtt_ms = be32 buf 26,
                  ci_nak_count = be32 buf 30,
                  ci_bitrate_bytes_per_sec = be32 buf 34 \<rparr>)"

text \<open>
  The layout the format document gives for such a packet, as a sender writes it: type, eight
  bytes of timestamp, magic, version and the fields of \<open>connection_info_t\<close>.
\<close>

definition ext_keepalive :: "byte list \<Rightarrow> connection_info \<Rightarrow> byte list" where
  "ext_keepalive stamp ci =
     put_be16 SRTLA_TYPE_KEEPALIVE @ stamp @ put_be16 SRTLA_KEEPALIVE_MAGIC @
     put_be16 SRTLA_KEEPALIVE_EXT_VERSION @ put_be32 (ci_conn_id ci) @
     put_be32 (word_of_int (ci_window ci)) @ put_be32 (word_of_int (ci_in_flight ci)) @
     put_be32 (ci_rtt_ms ci) @ put_be32 (ci_nak_count ci) @ put_be32 (ci_bitrate_bytes_per_sec ci)"

definition int32_range :: "int \<Rightarrow> bool" where
  "int32_range i \<longleftrightarrow> - (2 ^ 31) \<le> i \<and> i < 2 ^ 31"

section \<open>Padding, forward errors, constant-time comparison\<close>

text \<open>\<open>snt\<close> stands for the \<open>sendto\<close> system call with its socket, flags and destination fixed.\<close>

definition pad32 :: "byte list \<Rightarrow> byte list" where
  "pad32 buf = (if 32 \<le> length buf then buf else buf @ replicate (32 - length buf) 0)"

definition pad_sendto :: "(byte list \<Rightarrow> int) \<Rightarrow> byte list \<Rightarrow> int" where
  "pad_sendto snt buf =
     (if 32 \<le> length buf then snt buf
      else let ret = snt (pad32 buf) in if ret = 32 then int (length buf) else ret)"

text \<open>The Linux \<open>errno\<close> values that occur; \<open>EWOULDBLOCK\<close> is \<open>EAGAIN\<close> there.\<close>
definition EINTR :: int where [const_defs]: "EINTR = 4"
definition EAGAIN :: int where [const_defs]: "EAGAIN = 11"
definition ENOBUFS :: int where [const_defs]: "ENOBUFS = 105"
definition ECONNREFUSED :: int where [const_defs]: "ECONNREFUSED = 111"

definition is_transient_forward_error :: "int \<Rightarrow> bool" where
  "is_transient_forward_error err \<longleftrightarrow> err = EAGAIN \<or> err = ENOBUFS \<or> err = EINTR"

primrec ctc_diff :: "byte list \<Rightarrow> byte list \<Rightarrow> nat \<Rightarrow> byte \<Rightarrow> byte" where
  "ctc_diff ca cb 0 diff = diff"
| "ctc_diff ca cb (Suc i) diff = ctc_diff ca cb i diff OR (ca ! i XOR cb ! i)"

definition constant_time_compare :: "byte list \<Rightarrow> byte list \<Rightarrow> nat \<Rightarrow> int" where
  "constant_time_compare a b len = (if ctc_diff a b len 0 \<noteq> 0 then -1 else 0)"

section \<open>Lemmas\<close>

lemma length_pad32 [simp]: "length (pad32 buf) = max 32 (length buf)"
  by (simp add: pad32_def)

lemma take_pad32 [simp]: "take (length buf) (pad32 buf) = buf"
  by (simp add: pad32_def)

lemma xor_zero_iff [simp]: "a XOR b = 0 \<longleftrightarrow> a = b" for a b :: "'a::len word"
  by (metis xor.left_neutral xor.right_neutral xor.assoc xor_self_eq)

lemma ctc_diff_zero:
  "ctc_diff ca cb n d = 0 \<longleftrightarrow> d = 0 \<and> (\<forall>i<n. ca ! i = cb ! i)"
  by (induction n) (auto simp: less_Suc_eq or_eq_0_iff)

lemma constant_time_compare_zero:
  assumes "n \<le> length a" and "n \<le> length b"
  shows "constant_time_compare a b n = 0 \<longleftrightarrow> take n a = take n b"
  using assms by (auto simp: constant_time_compare_def ctc_diff_zero list_eq_iff_nth_eq)

lemma sint_word_of_int32: "int32_range i \<Longrightarrow> sint (word_of_int i :: u32) = i"
  by (simp add: int32_range_def sint_sbintrunc' signed_take_bit_int_eq_self)

lemma ext_keepalive_fields:
  assumes "length stamp = 8"
  shows "be16 (ext_keepalive stamp ci @ xs) 0 = SRTLA_TYPE_KEEPALIVE"
    and "be16 (ext_keepalive stamp ci @ xs) 10 = SRTLA_KEEPALIVE_MAGIC"
    and "be16 (ext_keepalive stamp ci @ xs) 12 = SRTLA_KEEPALIVE_EXT_VERSION"
    and "be32 (ext_keepalive stamp ci @ xs) 14 = ci_conn_id ci"
    and "be32 (ext_keepalive stamp ci @ xs) 18 = word_of_int (ci_window ci)"
    and "be32 (ext_keepalive stamp ci @ xs) 22 = word_of_int (ci_in_flight ci)"
    and "be32 (ext_keepalive stamp ci @ xs) 26 = ci_rtt_ms ci"
    and "be32 (ext_keepalive stamp ci @ xs) 30 = ci_nak_count ci"
    and "be32 (ext_keepalive stamp ci @ xs) 34 = ci_bitrate_bytes_per_sec ci"
  using assms by (simp_all add: ext_keepalive_def wire_simps)

text \<open>C37. An extended keepalive written by a sender is read back unchanged by
  \<open>parse_keepalive_conn_info\<close>: every field of \<open>connection_info_t\<close> survives, the two signed ones
  for every value of \<open>int32_t\<close>, whatever the eight timestamp bytes are and whatever follows the
  packet in the buffer.\<close>

theorem keepalive_roundtrip:
  assumes "length stamp = 8"
    and "int32_range (ci_window ci)" and "int32_range (ci_in_flight ci)"
    and "38 \<le> n"
  shows "parse_keepalive_conn_info (ext_keepalive stamp ci @ xs) n = Some ci"
  using assms
  by (simp add: parse_keepalive_conn_info_def ext_keepalive_fields sint_word_of_int32
      SRTLA_KEEPALIVE_EXT_LEN_def)

end
