(* ===== verification/Connection.thy ===== *)
theory Connection
  imports Wire
begin

text \<open>
  Configuration constants (\<open>receiver_config.h\<close>), socket addresses, the per-connection
  statistics, the \<open>Connection\<close> object (\<open>connection/connection.h\<close>, \<open>connection.cpp\<close>) and the metrics
  collector (\<open>quality/metrics_collector.cpp\<close>).
\<close>

section \<open>Configuration\<close>

definition MAX_CONNS_PER_GROUP :: nat where [const_defs]: "MAX_CONNS_PER_GROUP = 16"
definition MAX_GROUPS :: nat where [const_defs]: "MAX_GROUPS = 200"
definition CLEANUP_PERIOD :: time_t where [const_defs]: "CLEANUP_PERIOD = 3"
definition GROUP_TIMEOUT :: time_t where [const_defs]: "GROUP_TIMEOUT = 30"
definition PENDING_GROUP_TIMEOUT :: time_t where [const_defs]: "PENDING_GROUP_TIMEOUT = 5"
definition CONN_TIMEOUT :: time_t where [const_defs]: "CONN_TIMEOUT = 15"
definition KEEPALIVE_PERIOD :: time_t where [const_defs]: "KEEPALIVE_PERIOD = 1"
definition RECOVERY_CHANCE_PERIOD :: time_t where [const_defs]: "RECOVERY_CHANCE_PERIOD = 5"
definition AUTH_FAIL_THRESHOLD :: int where [const_defs]: "AUTH_FAIL_THRESHOLD = 5"
definition AUTH_FAIL_WINDOW :: time_t where [const_defs]: "AUTH_FAIL_WINDOW = 60"
definition AUTH_FAIL_COOLDOWN :: time_t where [const_defs]: "AUTH_FAIL_COOLDOWN = 60"
definition CONN_QUALITY_EVAL_PERIOD :: time_t where [const_defs]: "CONN_QUALITY_EVAL_PERIOD = 5"
definition CONNECTION_GRACE_PERIOD :: time_t where [const_defs]: "CONNECTION_GRACE_PERIOD = 10"
definition WEIGHT_FULL :: byte where [const_defs]: "WEIGHT_FULL = 100"
definition WEIGHT_EXCELLENT :: byte where [const_defs]: "WEIGHT_EXCELLENT = 85"
definition WEIGHT_DEGRADED :: byte where [const_defs]: "WEIGHT_DEGRADED = 70"
definition WEIGHT_FAIR :: byte where [const_defs]: "WEIGHT_FAIR = 55"
definition WEIGHT_POOR :: byte where [const_defs]: "WEIGHT_POOR = 40"
definition WEIGHT_CRITICAL :: byte where [const_defs]: "WEIGHT_CRITICAL = 10"
definition RTT_THRESHOLD_CRITICAL :: u32 where [const_defs]: "RTT_THRESHOLD_CRITICAL = 500"
definition RTT_THRESHOLD_HIGH :: u32 where [const_defs]: "RTT_THRESHOLD_HIGH = 200"
definition RTT_THRESHOLD_MODERATE :: u32 where [const_defs]: "RTT_THRESHOLD_MODERATE = 100"
definition RTT_VARIANCE_THRESHOLD :: u32 where [const_defs]: "RTT_VARIANCE_THRESHOLD = 50"
definition KEEPALIVE_STALENESS_THRESHOLD :: time_t
  where [const_defs]: "KEEPALIVE_STALENESS_THRESHOLD = 2"
definition RTT_HISTORY_SIZE :: nat where [const_defs]: "RTT_HISTORY_SIZE = 5"
definition RECV_ACK_INT :: nat where [const_defs]: "RECV_ACK_INT = 10"

section \<open>Socket addresses\<close>

text \<open>
  A \<open>sockaddr_storage\<close> by the regions the program reads: the family, bytes 2 and 3 (the port
  of both \<open>sockaddr_in\<close> and \<open>sockaddr_in6\<close>, in network order), bytes 4 to 7 (\<open>sin_addr\<close>; the
  flow label of an IPv6 address) and bytes 8 to 23 (\<open>sin6_addr\<close>).
\<close>

record sockaddr_storage =
  ss_family :: u16
  sa_port :: u16
  sin_addr :: "byte list"
  sin6_addr :: "byte list"

definition AF_INET :: u16 where [const_defs]: "AF_INET = 2"
definition AF_INET6 :: u16 where [const_defs]: "AF_INET6 = 10"

definition zero_addr :: sockaddr_storage where
  "zero_addr = \<lparr>ss_family = 0, sa_port = 0, sin_addr = replicate 4 0, sin6_addr = replicate 16 0\<rparr>"

text \<open>The \<open>n\<close> bytes at the start of a field.\<close>
definition bytes_of :: "byte list \<Rightarrow> nat \<Rightarrow> byte list" where
  "bytes_of buf n = map ((!) buf) [0..<n]"

definition addresses_equal :: "sockaddr_storage \<Rightarrow> sockaddr_storage \<Rightarrow> bool" where
  "addresses_equal a b \<longleftrightarrow>
     (if ss_family a \<noteq> ss_family b then False
      else if ss_family a = AF_INET6
      then constant_time_compare (sin6_addr a) (sin6_addr b) 16 = 0 \<and> sa_port a = sa_port b
      else constant_time_compare (sin_addr a) (sin_addr b) 4 = 0 \<and> sa_port a = sa_port b)"

text \<open>What two equal addresses have in common.\<close>
definition addr_key :: "sockaddr_storage \<Rightarrow> u16 \<times> byte list \<times> u16" where
  "addr_key a = (ss_family a,
     if ss_family a = AF_INET6 then bytes_of (sin6_addr a) 16 else bytes_of (sin_addr a) 4,
     sa_port a)"

section \<open>Statistics and connections\<close>

record connection_stats =
  bytes_received :: u64
  packets_received :: u64
  packets_lost :: u32
  last_eval_time :: u64
  last_bytes_received :: u64
  last_packets_received :: u64
  last_packets_lost :: u32
  error_points :: u32
  weight_percent :: byte
  nack_count :: u16
  rtt_ms :: u32
  rtt_history :: "u32 list"
  rtt_history_idx :: byte
  last_keepalive :: time_t
  window :: int
  in_flight :: int
  sender_nak_count :: u32
  last_sender_nak_count :: u32
  sender_bitrate_bps :: u32
  sender_supports_extended_keepalives :: bool
  legacy_error_points :: u32
  legacy_weight_percent :: byte

definition new_stats :: connection_stats where
  "new_stats =
     \<lparr>bytes_received = 0, packets_received = 0, packets_lost = 0, last_eval_time = 0,
      last_bytes_received = 0, last_packets_received = 0, last_packets_lost = 0,
      error_points = 0, weight_percent = WEIGHT_FULL, nack_count = 0,
      rtt_ms = 0, rtt_history = replicate RTT_HISTORY_SIZE 0, rtt_history_idx = 0,
      last_keepalive = 0, window = 0, in_flight = 0,
      sender_nak_count = 0, last_sender_nak_count = 0, sender_bitrate_bps = 0,
      sender_supports_extended_keepalives = False,
      legacy_error_points = 0, legacy_weight_percent = WEIGHT_FULL\<rparr>"

definition has_valid_sender_telemetry :: "connection_stats \<Rightarrow> time_t \<Rightarrow> bool" where
  "has_valid_sender_telemetry st current_time \<longleftrightarrow>
     (if last_keepalive st = 0 then False
      else if current_time - last_keepalive st > KEEPALIVE_STALENESS_THRESHOLD then False
      else 0 < rtt_ms st \<or> 0 < window st)"

definition supports_extended_keepalives :: "connection_stats \<Rightarrow> bool" where
  "supports_extended_keepalives st = sender_supports_extended_keepalives st"

text \<open>
  \<open>recv_log\<close> holds the sequence numbers in network order in the source; the model stores
  their values and writes the bytes in that order when an ACK is built.
\<close>

record connection =
  address :: sockaddr_storage
  last_rcvd :: time_t
  recv_idx :: int
  recv_log :: "u32 list"
  stats :: connection_stats
  recovery_start :: time_t
  connection_start :: time_t
  extensions_negotiated :: bool
  sender_capabilities :: u32

definition new_connection :: "sockaddr_storage \<Rightarrow> time_t \<Rightarrow> connection" where
  "new_connection addr timestamp =
     \<lparr>address = addr, last_rcvd = timestamp, recv_idx = 0,
      recv_log = replicate RECV_ACK_INT 0, stats = new_stats,
      recovery_start = 0, connection_start = timestamp,
      extensions_negotiated = False, sender_capabilities = 0\<rparr>"

definition set_extensions_negotiated :: "bool \<Rightarrow> connection \<Rightarrow> connection" where
  "set_extensions_negotiated negotiated conn = conn\<lparr>extensions_negotiated := negotiated\<rparr>"

definition set_sender_capabilities :: "u32 \<Rightarrow> connection \<Rightarrow> connection" where
  "set_sender_capabilities caps conn = conn\<lparr>sender_capabilities := caps\<rparr>"

definition conn_timed_out :: "connection \<Rightarrow> time_t \<Rightarrow> bool" where
  "conn_timed_out conn ts \<longleftrightarrow> last_rcvd conn + CONN_TIMEOUT < ts"

definition upd_stats :: "(connection_stats \<Rightarrow> connection_stats) \<Rightarrow> connection \<Rightarrow> connection" where
  "upd_stats f conn = conn\<lparr>stats := f (stats conn)\<rparr>"

section \<open>The metrics collector\<close>

definition on_packet_received :: "nat \<Rightarrow> connection_stats \<Rightarrow> connection_stats" where
  "on_packet_received bytes st =
     st\<lparr>bytes_received := bytes_received st + of_nat bytes,
        packets_received := packets_received st + 1\<rparr>"

definition on_nak_detected :: "u32 \<Rightarrow> connection_stats \<Rightarrow> connection_stats" where
  "on_nak_detected nak_count st =
     st\<lparr>packets_lost := packets_lost st + nak_count,
        nack_count := nack_count st + ucast nak_count\<rparr>"

definition reset_period :: "u64 \<Rightarrow> connection_stats \<Rightarrow> connection_stats" where
  "reset_period current_ms st =
     st\<lparr>last_bytes_received := bytes_received st,
        last_packets_received := packets_received st,
        last_packets_lost := packets_lost st,
        last_eval_time := current_ms\<rparr>"

definition bytes_in_period :: "connection_stats \<Rightarrow> u64" where
  "bytes_in_period st = bytes_received st - last_bytes_received st"

definition packets_in_period :: "connection_stats \<Rightarrow> u64" where
  "packets_in_period st = packets_received st - last_packets_received st"

definition naks_in_period :: "connection_stats \<Rightarrow> u32" where
  "naks_in_period st = packets_lost st - last_packets_lost st"

section \<open>Lemmas\<close>

lemma bytes_of_eq_iff: "bytes_of a n = bytes_of b n \<longleftrightarrow> (\<forall>i<n. a ! i = b ! i)"
  by (auto simp: bytes_of_def)

lemma compare_bytes: "constant_time_compare a b n = 0 \<longleftrightarrow> bytes_of a n = bytes_of b n"
  by (simp add: constant_time_compare_def ctc_diff_zero bytes_of_eq_iff)

lemma addresses_equal_key: "addresses_equal a b \<longleftrightarrow> addr_key a = addr_key b"
  by (auto simp: addresses_equal_def addr_key_def compare_bytes)

lemma addresses_equal_refl [simp]: "addresses_equal a a"
  by (simp add: addresses_equal_key)

end
