(* ===== verification/Nak_Dedup.thy ===== *)
theory Nak_Dedup
  imports Prelude
begin

text \<open>
  The NAK deduplicator of \<open>utils/nak_dedup.cpp\<close>: the FNV-1a hash of the loss list of a NAK
  and the per-group cache that decides whether a NAK with that hash is passed on.
\<close>

section \<open>Definitions\<close>

definition FNV_OFFSET_BASIS :: u64 where [const_defs]: "FNV_OFFSET_BASIS = 1469598103934665603"
definition FNV_PRIME :: u64 where [const_defs]: "FNV_PRIME = 1099511628211"
definition SUPPRESS_MS :: u64 where [const_defs]: "SUPPRESS_MS = 100"
definition MAX_REPEATS :: int where [const_defs]: "MAX_REPEATS = 1"

record nak_hash_entry =
  timestamp_ms :: u64
  repeat_count :: int

type_synonym nak_cache = "u64 \<rightharpoonup> nak_hash_entry"

fun fnv_loop :: "byte list \<Rightarrow> u64 \<Rightarrow> u64" where
  "fnv_loop [] hash = hash"
| "fnv_loop (b # bs) hash = fnv_loop bs ((hash XOR ucast b) * FNV_PRIME)"

definition hash_nak_payload :: "byte list \<Rightarrow> int \<Rightarrow> int \<Rightarrow> u64" where
  "hash_nak_payload buffer n prefix_bytes =
     (if n \<le> 16 then 0
      else let payload = drop 16 buffer;
               payload_length = nat (n - 16);
               payload_length = (if 0 \<le> prefix_bytes \<and> nat prefix_bytes < payload_length
                                 then nat prefix_bytes else payload_length)
           in fnv_loop (take payload_length payload) FNV_OFFSET_BASIS)"

definition should_accept_nak :: "nak_cache \<Rightarrow> u64 \<Rightarrow> u64 \<Rightarrow> bool \<times> nak_cache" where
  "should_accept_nak cache hash now =
     (case cache hash of
        None \<Rightarrow> (True, cache(hash \<mapsto> \<lparr>timestamp_ms = now, repeat_count = 0\<rparr>))
      | Some e \<Rightarrow>
          if now < timestamp_ms e then (False, cache)
          else if now - timestamp_ms e < SUPPRESS_MS then (False, cache)
          else if MAX_REPEATS \<le> repeat_count e then (False, cache)
          else (True, cache(hash \<mapsto> e\<lparr>timestamp_ms := now, repeat_count := repeat_count e + 1\<rparr>)))"

section \<open>The contract of an admission filter\<close>

text \<open>
  A filter decides, for a key and a time stamp, whether an event passes. The contract: every
  key has a finite budget, a pass spends one unit of its own key's budget only, and a pass
  comes at least \<open>gap\<close> after the previous pass of that key.
\<close>

locale admission_filter =
  fixes decide :: "'c \<Rightarrow> 'k \<Rightarrow> 't \<Rightarrow> bool \<times> 'c"
    and budget :: "'c \<Rightarrow> 'k \<Rightarrow> nat"
    and since :: "'c \<Rightarrow> 'k \<Rightarrow> nat option"
    and stamp :: "'t \<Rightarrow> nat"
    and gap :: nat
  assumes pass_spends: "decide c k t = (True, c') \<Longrightarrow> budget c k = Suc (budget c' k)"
    and pass_marks: "decide c k t = (True, c') \<Longrightarrow> since c' k = Some (stamp t)"
    and pass_spaced: "decide c k t = (True, c') \<Longrightarrow> since c k = Some s \<Longrightarrow> s + gap \<le> stamp t"
    and block_keeps: "decide c k t = (False, c') \<Longrightarrow> c' = c"
    and frame_budget: "decide c k t = (b, c') \<Longrightarrow> j \<noteq> k \<Longrightarrow> budget c' j = budget c j"
    and frame_since: "decide c k t = (b, c') \<Longrightarrow> j \<noteq> k \<Longrightarrow> since c' j = since c j"
begin

text \<open>The time stamps at which events of key \<open>k\<close> pass when a list of events is decided in order.\<close>

fun passes :: "'k \<Rightarrow> 'c \<Rightarrow> ('k \<times> 't) list \<Rightarrow> nat list" where
  "passes k c [] = []"
| "passes k c ((j, t) # es) =
     (case decide c j t of (b, c') \<Rightarrow> (if b \<and> j = k then [stamp t] else []) @ passes k c' es)"

lemma decide_keeps_others:
  assumes "decide c j t = (b, c')" and "\<not> (b \<and> j = k)"
  shows "budget c' k = budget c k" and "since c' k = since c k"
  using assms by (cases "j = k"; auto dest: block_keeps frame_budget frame_since)+

lemma passes_le_budget: "length (passes k c es) \<le> budget c k"
proof (induction es arbitrary: c)
  case (Cons e es)
  obtain j t b c' where e: "e = (j, t)" and d: "decide c j t = (b, c')" by fastforce
  show ?case
  proof (cases "b \<and> j = k")
    case True
    with d pass_spends [of c k t c'] Cons.IH [of c'] show ?thesis by (simp add: e)
  next
    case False
    from decide_keeps_others [OF d this] Cons.IH [of c'] False show ?thesis
      by (auto simp: e d)
  qed
qed simp

lemma passes_spaced:
  "sorted_wrt (\<lambda>a b. a + gap \<le> b) (passes k c es) \<and>
   (\<forall>s. since c k = Some s \<longrightarrow> (\<forall>t\<in>set (passes k c es). s + gap \<le> t))"
proof (induction es arbitrary: c)
  case (Cons e es)
  obtain j t b c' where e: "e = (j, t)" and d: "decide c j t = (b, c')" by fastforce
  show ?case
  proof (cases "b \<and> j = k")
    case True
    with d pass_marks [of c k t c'] Cons.IH [of c'] pass_spaced [of c k t c']
    show ?thesis by (fastforce simp: e)
  next
    case False
    from decide_keeps_others [OF d this] Cons.IH [of c'] False show ?thesis
      by (auto simp: e d)
  qed
qed simp

end

section \<open>The deduplicator meets the contract\<close>

definition nak_budget :: "nak_cache \<Rightarrow> u64 \<Rightarrow> nat" where
  "nak_budget cache h =
     (case cache h of None \<Rightarrow> Suc (nat MAX_REPEATS) | Some e \<Rightarrow> nat (MAX_REPEATS - repeat_count e))"

definition nak_since :: "nak_cache \<Rightarrow> u64 \<Rightarrow> nat option" where
  "nak_since cache h = map_option (\<lambda>e. unat (timestamp_ms e)) (cache h)"

lemma spaced_stamps:
  "\<not> now < (s::u64) \<Longrightarrow> \<not> now - s < SUPPRESS_MS \<Longrightarrow> unat s + 100 \<le> unat now"
  by (simp add: const_defs word_less_nat_alt unat_sub_if_size split: if_splits)

interpretation nak: admission_filter should_accept_nak nak_budget nak_since unat 100
  by unfold_locales
    (auto simp: should_accept_nak_def nak_budget_def nak_since_def const_defs(4) spaced_stamps
      split: option.splits if_splits)

text \<open>The NAKs of one hash that are passed on while a group handles a list of NAKs.\<close>

primrec accepted_naks :: "u64 \<Rightarrow> nak_cache \<Rightarrow> (u64 \<times> u64) list \<Rightarrow> nat list" where
  "accepted_naks h cache [] = []"
| "accepted_naks h cache (e # es) =
     (case should_accept_nak cache (fst e) (snd e) of (b, cache') \<Rightarrow>
        (if b \<and> fst e = h then [unat (snd e)] else []) @ accepted_naks h cache' es)"

lemma accepted_naks_passes: "accepted_naks h cache es = nak.passes h cache es"
  by (induction es arbitrary: cache) (auto split: prod.split)

text \<open>C40. A group passes on a NAK with a given loss list at most twice in its lifetime
  (\<open>MAX_REPEATS\<close> repeats after the first), and two passes are at least \<open>SUPPRESS_MS\<close>
  milliseconds apart, whatever other NAKs arrive in between and however the clock jumps.\<close>

theorem nak_accepted_twice:
  "length (accepted_naks h Map.empty es) \<le> 2 \<and>
   sorted_wrt (\<lambda>a b. a + 100 \<le> b) (accepted_naks h Map.empty es)"
  using nak.passes_le_budget [of h Map.empty es] nak.passes_spaced [of h Map.empty es]
  by (simp add: accepted_naks_passes nak_budget_def MAX_REPEATS_def)

text \<open>With the prefix of 128 bytes that the handler passes, the hash reads the loss list
  only: two NAKs that agree on the bytes 16 to 143 (fewer when the packet is shorter) get the
  same hash, whatever their headers are, and no byte outside the received length is read.\<close>

lemma nak_hash_reads_loss_list:
  assumes "length buf = length buf'"
    and "\<forall>i. 16 \<le> i \<and> i < 144 \<and> i < length buf \<longrightarrow> buf ! i = buf' ! i"
  shows "hash_nak_payload buf (int (length buf)) 128 = hash_nak_payload buf' (int (length buf')) 128"
proof -
  have "take m (drop 16 buf) = take m (drop 16 buf')" if "m \<le> 128" "m \<le> length buf - 16" for m
    using assms that by (auto intro!: nth_equalityI)
  with assms(1) show ?thesis by (simp add: hash_nak_payload_def Let_def nat_diff_distrib')
qed

end
