(* ===== verification/Group.thy ===== *)
theory Group
  imports Connection Nak_Dedup
begin

text \<open>
  The connection group (\<open>connection/connection_group.h\<close>, \<open>connection_group.cpp\<close>). Groups live behind
  \<open>std::shared_ptr\<close> and are compared by pointer; \<open>gptr\<close> is the identity of the object.
\<close>

record connection_group =
  gptr :: nat
  gid :: "byte list"
  conns :: "connection list"
  created_at :: time_t
  data_seen :: bool
  established :: bool
  srt_sock :: int
  last_addr :: sockaddr_storage
  total_target_bandwidth :: u64
  last_quality_eval :: time_t
  last_load_balance_eval :: time_t
  load_balancing_enabled :: bool
  nak_seen_hash :: nak_cache
  group_epoll_fd :: int

text \<open>The constructor: half of the identifier from the client, half random.\<close>

definition new_group :: "nat \<Rightarrow> byte list \<Rightarrow> byte list \<Rightarrow> time_t \<Rightarrow> connection_group" where
  "new_group ptr client_id random_bytes timestamp =
     \<lparr>gptr = ptr,
      gid = take (SRTLA_ID_LEN div 2) client_id @ take (SRTLA_ID_LEN div 2) random_bytes,
      conns = [], created_at = timestamp, data_seen = False, established = False,
      srt_sock = -1, last_addr = zero_addr, total_target_bandwidth = 0,
      last_quality_eval = 0, last_load_balance_eval = 0, load_balancing_enabled = True,
      nak_seen_hash = Map.empty, group_epoll_fd = -1\<rparr>"

definition add_connection :: "connection \<Rightarrow> connection_group \<Rightarrow> connection_group" where
  "add_connection conn g = g\<lparr>conns := conns g @ [conn]\<rparr>"

text \<open>A connection is given by its position in the group.\<close>

definition remove_connection :: "nat \<Rightarrow> connection_group \<Rightarrow> connection_group" where
  "remove_connection i g = g\<lparr>conns := take i (conns g) @ drop (Suc i) (conns g)\<rparr>"

definition set_srt_socket :: "int \<Rightarrow> connection_group \<Rightarrow> connection_group" where
  "set_srt_socket sock g = g\<lparr>srt_sock := sock\<rparr>"

definition set_last_address :: "sockaddr_storage \<Rightarrow> connection_group \<Rightarrow> connection_group" where
  "set_last_address addr g = g\<lparr>last_addr := addr\<rparr>"

definition mark_data_seen :: "connection_group \<Rightarrow> connection_group" where
  "mark_data_seen g = g\<lparr>data_seen := True\<rparr>"

definition mark_established :: "connection_group \<Rightarrow> connection_group" where
  "mark_established g = g\<lparr>established := True\<rparr>"

definition set_load_balancing_enabled :: "bool \<Rightarrow> connection_group \<Rightarrow> connection_group" where
  "set_load_balancing_enabled enabled g = g\<lparr>load_balancing_enabled := enabled\<rparr>"

definition get_client_addresses :: "connection_group \<Rightarrow> sockaddr_storage list" where
  "get_client_addresses g = map address (conns g)"

text \<open>The connection at a position of the vector, updated in place.\<close>

definition map_conn :: "nat \<Rightarrow> (connection \<Rightarrow> connection) \<Rightarrow> connection_group \<Rightarrow> connection_group" where
  "map_conn i f g = g\<lparr>conns := (conns g)[i := f (conns g ! i)]\<rparr>"

end
