(* ===== verification/Auth_Limiter.thy ===== *)
theory Auth_Limiter
  imports Connection "HOL-Library.AList"
begin

text \<open>
  The throttle for repeated SRT authentication failures (\<open>utils/auth_rate_limiter.cpp\<close>). The
  unordered map is an association list with distinct keys; nothing depends on its order.
\<close>

section \<open>Definitions\<close>

record auth_entry =
  failures :: int
  window_start :: time_t
  blocked_until :: time_t

type_synonym auth_entries = "(byte list \<times> auth_entry) list"

definition new_entry :: auth_entry where
  "new_entry = \<lparr>failures = 0, window_start = 0, blocked_until = 0\<rparr>"

definition key_for :: "sockaddr_storage \<Rightarrow> byte list" where
  "key_for addr =
     (if ss_family addr = AF_INET6 then [0x36, 0x3A] @ bytes_of (sin6_addr addr) 16
      else [0x34, 0x3A] @ bytes_of (sin_addr addr) 4)"

definition fail_entry :: "auth_entry \<Rightarrow> time_t \<Rightarrow> auth_entry" where
  "fail_entry entry now =
     (let entry = (if window_start entry = 0 \<or> now - window_start entry > AUTH_FAIL_WINDOW
                   then entry\<lparr>window_start := now, failures := 0\<rparr> else entry);
          entry = entry\<lparr>failures := failures entry + 1\<rparr>
      in if AUTH_FAIL_THRESHOLD \<le> failures entry
         then entry\<lparr>blocked_until := now + AUTH_FAIL_COOLDOWN, failures := 0, window_start := 0\<rparr>
         else entry)"

definition find_entry :: "byte list \<Rightarrow> auth_entries \<Rightarrow> auth_entry" where
  "find_entry k es = (case map_of es k of None \<Rightarrow> new_entry | Some e \<Rightarrow> e)"

definition record_failure :: "sockaddr_storage \<Rightarrow> time_t \<Rightarrow> auth_entries \<Rightarrow> auth_entries" where
  "record_failure addr now es =
     AList.update (key_for addr) (fail_entry (find_entry (key_for addr) es) now) es"

definition is_blocked :: "sockaddr_storage \<Rightarrow> time_t \<Rightarrow> auth_entries \<Rightarrow> bool" where
  "is_blocked addr now es \<longleftrightarrow>
     (case map_of es (key_for addr) of None \<Rightarrow> False | Some e \<Rightarrow> blocked_until e > now)"

definition blocked_count :: "time_t \<Rightarrow> auth_entries \<Rightarrow> nat" where
  "blocked_count now es = length (filter (\<lambda>(k, e). blocked_until e > now) es)"

definition keep_entry :: "time_t \<Rightarrow> auth_entry \<Rightarrow> bool" where
  "keep_entry now e \<longleftrightarrow>
     (let blocked = blocked_until e > now;
          window_active = window_start e \<noteq> 0 \<and> now - window_start e \<le> AUTH_FAIL_WINDOW
      in blocked \<or> window_active)"

definition limiter_cleanup :: "time_t \<Rightarrow> auth_entries \<Rightarrow> auth_entries" where
  "limiter_cleanup now es = filter (\<lambda>(k, e). keep_entry now e) es"

text \<open>A history of the limiter: failures, queries by \<open>register_group\<close>, periodic cleanups.\<close>

datatype 'a limiter_op = Fail 'a | Query 'a | Clean

text \<open>The answers to the queries of a timed history, for any implementation of the operations.\<close>

fun answers :: "('a \<Rightarrow> time_t \<Rightarrow> 's \<Rightarrow> 's) \<Rightarrow> ('a \<Rightarrow> time_t \<Rightarrow> 's \<Rightarrow> bool) \<Rightarrow> (time_t \<Rightarrow> 's \<Rightarrow> 's)
    \<Rightarrow> (time_t \<times> 'a limiter_op) list \<Rightarrow> 's \<Rightarrow> bool list" where
  "answers fl bl cl [] s = []"
| "answers fl bl cl ((t, Fail a) # ops) s = answers fl bl cl ops (fl a t s)"
| "answers fl bl cl ((t, Query a) # ops) s = bl a t s # answers fl bl cl ops s"
| "answers fl bl cl ((t, Clean) # ops) s = answers fl bl cl ops (cl t s)"

definition limiter_answers ::
    "(time_t \<times> sockaddr_storage limiter_op) list \<Rightarrow> auth_entries \<Rightarrow> bool list" where
  "limiter_answers = answers record_failure is_blocked limiter_cleanup"

definition record_failures ::
    "(sockaddr_storage \<times> time_t) list \<Rightarrow> auth_entries \<Rightarrow> auth_entries" where
  "record_failures fs es = fold (\<lambda>(a, t). record_failure a t) fs es"

section \<open>Lazy expiry\<close>

text \<open>
  The contract behind the periodic cleanup: dropping expired state leaves a state that no
  later operation can tell from the original. \<open>sim t\<close> relates states that agree from
  time \<open>t\<close> on.
\<close>

locale lazy_expiry =
  fixes fl :: "'a \<Rightarrow> time_t \<Rightarrow> 's \<Rightarrow> 's"
    and bl :: "'a \<Rightarrow> time_t \<Rightarrow> 's \<Rightarrow> bool"
    and cl :: "time_t \<Rightarrow> 's \<Rightarrow> 's"
    and sim :: "time_t \<Rightarrow> 's \<Rightarrow> 's \<Rightarrow> bool"
  assumes sim_later: "sim t s s' \<Longrightarrow> t \<le> t' \<Longrightarrow> sim t' s s'"
    and sim_fail: "sim t s s' \<Longrightarrow> sim t (fl a t s) (fl a t s')"
    and sim_query: "sim t s s' \<Longrightarrow> bl a t s = bl a t s'"
    and sim_clean: "sim t s s' \<Longrightarrow> sim t (cl t s) s'"
begin

lemma clean_unobservable:
  assumes "sim t0 s s'" and "sorted (t0 # map fst ops)"
  shows "answers fl bl cl ops s = answers fl bl cl (filter (\<lambda>(t, op). op \<noteq> Clean) ops) s'"
  using assms
proof (induction ops arbitrary: t0 s s')
  case (Cons e ops)
  obtain t op where e: "e = (t, op)" by fastforce
  from Cons.prems e have sim: "sim t s s'" and srt: "sorted (t # map fst ops)"
    by (auto intro: sim_later)
  note IH = Cons.IH [OF _ srt]
  show ?case
  proof (cases op)
    case (Fail a)
    with IH [OF sim_fail [OF sim, of a]] show ?thesis by (simp add: e)
  next
    case (Query a)
    with IH [OF sim] sim_query [OF sim, of a] show ?thesis by (simp add: e)
  next
    case Clean
    with IH [OF sim_clean [OF sim]] show ?thesis by (simp add: e)
  qed
qed simp

end

definition expired :: "time_t \<Rightarrow> auth_entry \<Rightarrow> bool" where
  "expired t e \<longleftrightarrow> window_start e = 0 \<or> t - window_start e > AUTH_FAIL_WINDOW"

definition entry_eqv :: "time_t \<Rightarrow> auth_entry \<Rightarrow> auth_entry \<Rightarrow> bool" where
  "entry_eqv t e e' \<longleftrightarrow>
     (blocked_until e = blocked_until e' \<or> (blocked_until e \<le> t \<and> blocked_until e' \<le> t)) \<and>
     ((window_start e = window_start e' \<and> failures e = failures e') \<or> (expired t e \<and> expired t e'))"

definition entries_eqv :: "time_t \<Rightarrow> auth_entries \<Rightarrow> auth_entries \<Rightarrow> bool" where
  "entries_eqv t es es' \<longleftrightarrow> 0 \<le> t \<and> distinct (map fst es) \<and> distinct (map fst es') \<and>
     (\<forall>k. entry_eqv t (find_entry k es) (find_entry k es'))"

lemma entry_eqv_refl [simp]: "entry_eqv t e e"
  by (simp add: entry_eqv_def)

lemma entry_eqv_later: "entry_eqv t e e' \<Longrightarrow> t \<le> t' \<Longrightarrow> entry_eqv t' e e'"
  by (auto simp: entry_eqv_def expired_def)

lemma entry_eqv_fail: "entry_eqv t e e' \<Longrightarrow> entry_eqv t (fail_entry e t) (fail_entry e' t)"
  by (auto simp: entry_eqv_def fail_entry_def expired_def Let_def)

lemma entry_eqv_drop: "0 \<le> t \<Longrightarrow> \<not> keep_entry t e \<Longrightarrow> entry_eqv t new_entry e"
  by (auto simp: entry_eqv_def keep_entry_def expired_def new_entry_def Let_def)

lemma entry_eqv_trans: "entry_eqv t e e' \<Longrightarrow> entry_eqv t e' e'' \<Longrightarrow> entry_eqv t e e''"
  by (auto simp: entry_eqv_def expired_def)

lemma find_entry_record [simp]:
  "find_entry k (record_failure a t es) =
     (if k = key_for a then fail_entry (find_entry k es) t else find_entry k es)"
  by (simp add: find_entry_def record_failure_def update_conv')

lemma is_blocked_entry: "0 \<le> t \<Longrightarrow> is_blocked a t es \<longleftrightarrow> blocked_until (find_entry (key_for a) es) > t"
  by (auto simp: is_blocked_def find_entry_def new_entry_def split: option.split)

lemma find_entry_cleanup:
  assumes "0 \<le> t" and "distinct (map fst es)"
  shows "entry_eqv t (find_entry k (limiter_cleanup t es)) (find_entry k es)"
proof (cases "map_of es k")
  case None
  then have "map_of (limiter_cleanup t es) k = None"
    by (auto simp: limiter_cleanup_def map_of_eq_None_iff)
  with None show ?thesis by (simp add: find_entry_def)
next
  case (Some e)
  have "map_of (limiter_cleanup t es) k = (if keep_entry t e then Some e else None)"
    using assms(2) Some
    by (induction es) (auto simp: limiter_cleanup_def map_of_eq_None_iff image_iff split: if_splits)
  with Some assms(1) show ?thesis by (auto simp: find_entry_def entry_eqv_drop)
qed

lemma distinct_record_failure [simp]:
  "distinct (map fst es) \<Longrightarrow> distinct (map fst (record_failure a t es))"
  by (simp add: record_failure_def distinct_update)

lemma distinct_limiter_cleanup [simp]:
  "distinct (map fst es) \<Longrightarrow> distinct (map fst (limiter_cleanup t es))"
  by (simp add: limiter_cleanup_def distinct_map_filter)

interpretation limiter: lazy_expiry record_failure is_blocked limiter_cleanup entries_eqv
proof unfold_locales
  fix t t' s s' assume "entries_eqv t s s'" "t \<le> t'"
  then show "entries_eqv t' s s'" by (auto simp: entries_eqv_def intro: entry_eqv_later)
next
  fix t s s' a assume "entries_eqv t s s'"
  then show "entries_eqv t (record_failure a t s) (record_failure a t s')"
    by (auto simp: entries_eqv_def entry_eqv_fail)
next
  fix t s s' a assume "entries_eqv t s s'"
  then have "0 \<le> t" "entry_eqv t (find_entry (key_for a) s) (find_entry (key_for a) s')"
    by (auto simp: entries_eqv_def)
  then show "is_blocked a t s = is_blocked a t s'"
    by (auto simp: is_blocked_entry entry_eqv_def)
next
  fix t s s' assume "entries_eqv t s s'"
  then show "entries_eqv t (limiter_cleanup t s) s'"
    by (auto simp: entries_eqv_def intro: entry_eqv_trans find_entry_cleanup)
qed

text \<open>C39. Cleanups of the limiter are unobservable: over any history of failures, registration
  checks and cleanups at non-decreasing clock readings, every check gets the answer it would
  get if no cleanup had ever run.\<close>

theorem limiter_cleanup_unobservable:
  assumes "distinct (map fst es)" and "sorted (map fst ops)" and "\<forall>(t, op)\<in>set ops. 0 \<le> t"
  shows "limiter_answers ops es = limiter_answers (filter (\<lambda>(t, op). op \<noteq> Clean) ops) es"
proof (cases ops)
  case (Cons e ops')
  with assms have "entries_eqv (fst e) es es" "sorted (fst e # map fst ops)"
    by (auto simp: entries_eqv_def)
  then show ?thesis unfolding limiter_answers_def by (rule limiter.clean_unobservable)
qed (simp add: limiter_answers_def)

section \<open>When a source is blocked\<close>

text \<open>
  What the limiter promises, as a function of the times of the failures of a source alone. A failure outside every window
  opens a window of 60 seconds. The fourth failure after it in this window blocks the source, and the next failure
  opens a new window; if there is no such failure, the first one after the window does. The result lists the times at
  which the source is blocked.
\<close>

fun lockouts :: "time_t list \<Rightarrow> time_t list" where
  "lockouts [] = []"
| "lockouts (t # ts) =
     (let w = takeWhile (\<lambda>u. u - t \<le> 60) (take 4 ts)
      in if length w = 4 then last w # lockouts (drop 4 ts) else lockouts (drop (length w) ts))"

definition failure_times :: "sockaddr_storage \<Rightarrow> (sockaddr_storage \<times> time_t) list \<Rightarrow> time_t list" where
  "failure_times a fs = map snd (filter (\<lambda>(b, t). key_for b = key_for a) fs)"

abbreviation fail_all :: "time_t list \<Rightarrow> auth_entry \<Rightarrow> auth_entry" where
  "fail_all ts e \<equiv> fold (\<lambda>t e. fail_entry e t) ts e"

lemma find_entry_failures:
  "find_entry (key_for a) (record_failures fs es) = fail_all (failure_times a fs) (find_entry (key_for a) es)"
  by (induction fs arbitrary: es) (auto simp: record_failures_def failure_times_def)

lemma fail_opens:
  assumes "expired t e"
  shows "fail_entry e t = e\<lparr>window_start := t, failures := 1\<rparr>"
  using assms by (simp add: fail_entry_def expired_def const_defs)

lemma fail_in_window:
  assumes "window_start e = t" "0 < t" "failures e = int k" "k + length w < 5" "\<forall>u\<in>set w. u - t \<le> 60"
  shows "fail_all w e = e\<lparr>failures := int (k + length w)\<rparr>"
  using assms
proof (induction w arbitrary: e k)
  case (Cons u w)
  then have "fail_entry e u = e\<lparr>failures := int (Suc k)\<rparr>" by (simp add: fail_entry_def const_defs)
  with Cons.IH [of "e\<lparr>failures := int (Suc k)\<rparr>" "Suc k"] Cons.prems show ?case by simp
qed simp

lemma fifth_blocks:
  assumes "window_start e = t" "0 < t" "failures e = 4" "u - t \<le> 60"
  shows "fail_entry e u = e\<lparr>blocked_until := u + 60, failures := 0, window_start := 0\<rparr>"
  using assms by (simp add: fail_entry_def const_defs)

lemma blocked_until_lockouts:
  assumes "\<forall>t\<in>set ts. 0 < t" and "ts \<noteq> [] \<Longrightarrow> expired (hd ts) e"
  shows "blocked_until (fail_all ts e) = (if lockouts ts = [] then blocked_until e else last (lockouts ts) + 60)"
  using assms
proof (induction ts arbitrary: e rule: lockouts.induct)
  case (2 t ts)
  define w where "w = takeWhile (\<lambda>u. u - t \<le> 60) (take 4 ts)"
  define e1 where "e1 = e\<lparr>window_start := t, failures := 1\<rparr>"
  have first: "fail_all (t # ts) e = fail_all ts e1"
    using 2(4) fail_opens [of t e] by (simp add: e1_def)
  have w: "length w \<le> 4" "\<forall>u\<in>set w. u - t \<le> 60" "take (length w) ts = w"
  proof -
    have "length w \<le> length (take 4 ts)" unfolding w_def by (rule length_takeWhile_le)
    then show "length w \<le> 4" by simp
    show "\<forall>u\<in>set w. u - t \<le> 60" by (auto simp: w_def dest: set_takeWhileD)
    show "take (length w) ts = w"
      using takeWhile_eq_take [of "\<lambda>u. u - t \<le> 60" "take 4 ts"] \<open>length w \<le> 4\<close> by (simp add: w_def [symmetric] min_absorb1)
  qed
  have rest: "fail_all ts e1 = fail_all (drop (length w) ts) (fail_all w e1)"
    using append_take_drop_id [of "length w" ts] w(3) by (metis fold_append comp_apply)
  have t: "0 < t" "window_start e1 = t" "failures e1 = int 1" using 2(3) by (simp_all add: e1_def)
  have pos: "\<forall>u\<in>set (drop n ts). 0 < u" for n using 2(3) by (auto dest: in_set_dropD)
  show ?case
  proof (cases "length w = 4")
    case True
    define e2 where "e2 = fail_all w e1"
    obtain v u where v: "w = v @ [u]" "length v = 3" using True by (cases w rule: rev_cases) auto
    then have "fail_all v e1 = e1\<lparr>failures := 4\<rparr>"
      using fail_in_window [OF t(2,1,3), of v] w(2) by simp
    then have e2: "e2 = e1\<lparr>blocked_until := last w + 60, failures := 0, window_start := 0\<rparr>"
      using fifth_blocks [of "e1\<lparr>failures := 4\<rparr>" t u] t w(2) v by (simp add: e2_def)
    then have "expired (hd (drop 4 ts)) e2" by (simp add: expired_def)
    from 2(1) [OF w_def True pos this] show ?thesis
      unfolding first rest using True e2 by (simp add: e2_def [symmetric] w_def [symmetric] Let_def)
  next
    case False
    define e2 where "e2 = fail_all w e1"
    have e2: "e2 = e1\<lparr>failures := int (1 + length w)\<rparr>"
      unfolding e2_def by (rule fail_in_window [OF t(2,1,3)]) (use False w in auto)
    have "expired (hd (drop (length w) ts)) e2" if "drop (length w) ts \<noteq> []"
    proof -
      have l: "length w < length ts" "length w < 4" using that w(1) False by auto
      then have "length (takeWhile (\<lambda>u. u - t \<le> 60) (take 4 ts)) < length (take 4 ts)" by (simp add: w_def [symmetric])
      from nth_length_takeWhile [OF this] l have "60 < ts ! length w - t" by (simp add: w_def [symmetric])
      then show ?thesis using l by (simp add: e2 e1_def expired_def hd_drop_conv_nth const_defs)
    qed
    moreover have "blocked_until e2 = blocked_until e" by (simp add: e2 e1_def)
    ultimately show ?thesis
      unfolding first rest e2_def [symmetric]
      using False 2(2) [OF w_def False pos, of e2] by (simp add: w_def [symmetric] Let_def)
  qed
qed simp

text \<open>C38. A source IP is blocked exactly by its fifth authentication failure in a window of 60 seconds, and for
  60 seconds from then. This holds after any sequence of failures, of this source and of others: failures of other
  IPs do not count, those of all ports of this IP do, a window begins with the first failure after the previous window or
  block, and a failure after its end begins a new one.\<close>

theorem blocked_iff_five_failures:
  assumes "map_of es (key_for a) = None" and "\<forall>(b, t)\<in>set fs. 0 < t" and "0 \<le> now"
  shows "is_blocked a now (record_failures fs es) \<longleftrightarrow>
     lockouts (failure_times a fs) \<noteq> [] \<and> now < last (lockouts (failure_times a fs)) + 60"
proof -
  have fresh: "find_entry (key_for a) es = new_entry" using assms(1) by (simp add: find_entry_def)
  have "\<forall>t\<in>set (failure_times a fs). 0 < t" using assms(2) by (auto simp: failure_times_def)
  then have "blocked_until (find_entry (key_for a) (record_failures fs es)) =
      (if lockouts (failure_times a fs) = [] then 0 else last (lockouts (failure_times a fs)) + 60)"
    unfolding find_entry_failures fresh
    by (subst blocked_until_lockouts) (simp_all add: expired_def new_entry_def)
  then show ?thesis using assms(3) by (simp add: is_blocked_entry)
qed

end
