(* ===== verification/Counters.thy ===== *)
theory Counters
  imports Prelude
begin

text \<open>
  The process-wide event counters of \<open>metrics/prometheus.h\<close> and \<open>prometheus.cpp\<close>: one
  \<open>uint64_t\<close> per \<open>Counter\<close>, incremented with wrap-around.
\<close>

datatype counter =
    PACKETS_RECEIVED | BYTES_RECEIVED | RECV_BATCHES
  | FORWARDED_PACKETS | FORWARDED_BYTES | FORWARD_ERRORS | FORWARD_DROPPED
  | SRT_PACKETS_RECEIVED | SRT_BYTES_RECEIVED
  | NAKS_RECEIVED | NAKS_SUPPRESSED
  | GROUP_REGISTRATIONS | GROUP_REG_THROTTLED | GROUP_REG_TABLE_FULL
  | GROUP_REG_DUP_ADDR | GROUP_REG_SEND_ERROR
  | CONN_REGISTRATIONS | CONN_REG_NO_GROUP | CONN_REG_GROUP_MISMATCH
  | CONN_REG_MAX_CONNS | CONN_REG_SEND_ERROR
  | GROUPS_REMOVED_IDLE | GROUPS_REMOVED_AUTH | GROUPS_REMOVED_SRT_ERROR
  | GROUPS_REMOVED_EVICTED
  | CONNECTIONS_REMOVED | AUTH_FAILURES
  | SEND_ERR_ACK | SEND_ERR_KEEPALIVE | SEND_ERR_DOWNSTREAM
  | RECOVERY_STARTED | RECOVERY_COMPLETED | RECOVERY_FAILED

type_synonym counters = "counter \<Rightarrow> u64"

definition no_counts :: counters where
  "no_counts = (\<lambda>_. 0)"

definition inc :: "counter \<Rightarrow> u64 \<Rightarrow> counters \<Rightarrow> counters" where
  "inc c n g_values = g_values(c := g_values c + n)"

definition counter_value :: "counter \<Rightarrow> counters \<Rightarrow> u64" where
  "counter_value c g_values = g_values c"

lemma inc_same [simp]: "inc c n v c = v c + n"
  by (simp add: inc_def)

lemma inc_other [simp]: "c \<noteq> d \<Longrightarrow> inc c n v d = v d"
  by (simp add: inc_def)

end
