(* ===== verification/Receiver_State.thy ===== *)
theory Receiver_State
  imports Group Auth_Limiter Counters
begin

text \<open>
  The state of \<open>srtla_rec\<close> and its environment. System calls are a parameter: \<open>os\<close> gives the
  result of the call number \<open>tick\<close>, so that every theorem holds whatever the kernel answers.
  What the process does to the outside is recorded in \<open>out\<close>, oldest first. Log lines are not
  modelled, with one exception that carries state (\<open>log_forward_drop\<close>).
\<close>

section \<open>The environment\<close>

record os =
  os_sendto :: "nat \<Rightarrow> sockaddr_storage \<Rightarrow> byte list \<Rightarrow> int"
  os_sendmmsg :: "nat \<Rightarrow> (sockaddr_storage \<times> byte list) list \<Rightarrow> int"
  os_send :: "nat \<Rightarrow> int \<Rightarrow> byte list \<Rightarrow> int \<times> int"
  os_recv :: "nat \<Rightarrow> int \<Rightarrow> byte list option"
  os_recvmmsg :: "nat \<Rightarrow> (sockaddr_storage \<times> byte list) list option"
  os_socket :: "nat \<Rightarrow> int"
  os_setsockopt :: "nat \<Rightarrow> int \<Rightarrow> int"
  os_fcntl :: "nat \<Rightarrow> int \<Rightarrow> int"
  os_connect :: "nat \<Rightarrow> int \<Rightarrow> int"
  os_epoll_ctl :: "nat \<Rightarrow> int \<Rightarrow> int"
  os_getsockname :: "nat \<Rightarrow> int \<Rightarrow> (u16 \<times> u16) option"
  os_fopen :: "nat \<Rightarrow> bool"
  os_read :: "nat \<Rightarrow> nat \<Rightarrow> byte list"
  os_clock :: "nat \<Rightarrow> timespec option"
  os_accept :: "nat \<Rightarrow> int option"
  os_http_send :: "nat \<Rightarrow> int \<Rightarrow> string \<Rightarrow> int \<times> bool"
  os_ntop6 :: "byte list \<Rightarrow> string"

text \<open>The two readings of the clock the receiver makes.\<close>

definition os_seconds :: "os \<Rightarrow> nat \<Rightarrow> time_t option" where
  "os_seconds os t = get_seconds (os_clock os t)"

definition os_ms :: "os \<Rightarrow> nat \<Rightarrow> u64 option" where
  "os_ms os t = get_ms (os_clock os t)"

datatype effect =
    Sent_To sockaddr_storage "byte list"
  | Sent_Many "(sockaddr_storage \<times> byte list) list"
  | Sent_Srt int "byte list"
  | Opened int
  | Closed int
  | Epoll_Added int nat
  | Epoll_Removed int
  | Wrote_Info u16 "sockaddr_storage list"
  | Removed_Info u16
  | Logged_Drops u64
  | Http_Sent int string

text \<open>An uncaught exception, an access to a freed object (undefined behaviour), or a call
  that does not return.\<close>
datatype failure = Runtime_Error | Use_After_Free | No_Return

section \<open>The state\<close>

text \<open>
  \<open>last_run\<close> is the static variable of \<open>cleanup_inactive\<close>; \<open>dropped_since_log\<close> and
  \<open>last_log_ms\<close> are those of \<open>log_forward_drop\<close>; \<open>srt_addr\<close> and \<open>epoll_fd\<close> are fixed members of
  \<open>SRTHandler\<close>; \<open>next_ptr\<close> is the next object identity.
\<close>

record receiver =
  groups :: "connection_group list"
  last_run :: time_t
  limiter :: auth_entries
  g_values :: counters
  dropped_since_log :: u64
  last_log_ms :: u64
  srt_addr :: sockaddr_storage
  epoll_fd :: int
  next_ptr :: nat
  tick :: nat
  out :: "effect list"

definition init_receiver :: "sockaddr_storage \<Rightarrow> int \<Rightarrow> receiver" where
  "init_receiver sa efd =
     \<lparr>groups = [], last_run = 0, limiter = [], g_values = no_counts,
      dropped_since_log = 0, last_log_ms = 0, srt_addr = sa, epoll_fd = efd,
      next_ptr = 0, tick = 0, out = []\<rparr>"

definition emit :: "effect \<Rightarrow> receiver \<Rightarrow> receiver" where
  "emit e s = s\<lparr>out := out s @ [e]\<rparr>"

definition called :: "receiver \<Rightarrow> receiver" where
  "called s = s\<lparr>tick := Suc (tick s)\<rparr>"

definition counted :: "counter \<Rightarrow> u64 \<Rightarrow> receiver \<Rightarrow> receiver" where
  "counted c n s = s\<lparr>g_values := inc c n (g_values s)\<rparr>"

definition get_group :: "nat \<Rightarrow> receiver \<Rightarrow> connection_group option" where
  "get_group p s = find (\<lambda>g. gptr g = p) (groups s)"

definition upd_group :: "nat \<Rightarrow> (connection_group \<Rightarrow> connection_group) \<Rightarrow> receiver \<Rightarrow> receiver" where
  "upd_group p f s = s\<lparr>groups := map (\<lambda>g. if gptr g = p then f g else g) (groups s)\<rparr>"

text \<open>Sending on the SRTLA socket through \<open>pad_sendto\<close>.\<close>

definition send_padded :: "os \<Rightarrow> sockaddr_storage \<Rightarrow> byte list \<Rightarrow> receiver \<Rightarrow> int \<times> receiver" where
  "send_padded os addr buf s =
     (pad_sendto (os_sendto os (tick s) addr) buf, emit (Sent_To addr (pad32 buf)) (called s))"

section \<open>Socket files and the group destructor\<close>

definition get_local_port :: "os \<Rightarrow> int \<Rightarrow> receiver \<Rightarrow> u16 \<times> receiver" where
  "get_local_port os fd s =
     ((case os_getsockname os (tick s) fd of
         None \<Rightarrow> 0
       | Some (family, port) \<Rightarrow>
           if family = AF_INET then port else if family = AF_INET6 then port else 0),
      called s)"

definition write_socket_info_file :: "os \<Rightarrow> connection_group \<Rightarrow> receiver \<Rightarrow> receiver" where
  "write_socket_info_file os g s =
     (if srt_sock g = -1 then s
      else let (local_port, s) = get_local_port os (srt_sock g) s
           in if os_fopen os (tick s)
              then emit (Wrote_Info local_port (get_client_addresses g)) (called s) else called s)"

definition remove_socket_info_file :: "os \<Rightarrow> connection_group \<Rightarrow> receiver \<Rightarrow> receiver" where
  "remove_socket_info_file os g s =
     (if srt_sock g = -1 then s
      else let (local_port, s) = get_local_port os (srt_sock g) s
           in emit (Removed_Info local_port) (called s))"

definition destroy_group :: "os \<Rightarrow> connection_group \<Rightarrow> receiver \<Rightarrow> receiver" where
  "destroy_group os g s =
     (if srt_sock g > 0 then
        let s = remove_socket_info_file os g s;
            s = (if group_epoll_fd g \<ge> 0 then emit (Epoll_Removed (srt_sock g)) (called s) else s)
        in emit (Closed (srt_sock g)) (called s)
      else s)"

section \<open>Random bytes\<close>

text \<open>
  \<open>get_random_bytes\<close>: read until \<open>len\<close> bytes are there; an unopenable device or an empty
  read throws. A read returns at most what was asked for; one that returns less leaves the stream at its end
  (not \<open>good\<close>), and the next read from it returns nothing.
\<close>

function read_random :: "os \<Rightarrow> nat \<Rightarrow> bool \<Rightarrow> byte list \<Rightarrow> receiver \<Rightarrow> byte list option \<times> receiver" where
  "read_random os len good buffer s =
     (if length buffer < len then
        let chunk = (if good then take (len - length buffer) (os_read os (tick s) (len - length buffer)) else [])
        in if chunk = [] then (None, called s)
           else read_random os len (length chunk = len - length buffer) (buffer @ chunk) (called s)
      else (Some buffer, s))"
  by pat_completeness auto
termination
proof (relation "measure (\<lambda>(os, len, good, buffer, s). len - length buffer)", goal_cases)
  case (2 os len good buffer s chunk)
  then have "0 < length chunk" "length buffer < len" by simp_all
  then have "len - (length buffer + length chunk) < len - length buffer" by linarith
  then show ?case by simp
qed simp

declare read_random.simps [simp del]

definition get_random_bytes :: "os \<Rightarrow> nat \<Rightarrow> receiver \<Rightarrow> byte list option \<times> receiver" where
  "get_random_bytes os len s =
     (if os_fopen os (tick s) then read_random os len True [] (called s) else (None, called s))"

section \<open>Frame lemmas\<close>

named_theorems frame \<open>fields an operation leaves alone\<close>

lemma emit_frame [simp]:
  "groups (emit e s) = groups s" "last_run (emit e s) = last_run s" "limiter (emit e s) = limiter s"
  "g_values (emit e s) = g_values s" "next_ptr (emit e s) = next_ptr s" "tick (emit e s) = tick s"
  "srt_addr (emit e s) = srt_addr s" "epoll_fd (emit e s) = epoll_fd s" "out (emit e s) = out s @ [e]"
  by (simp_all add: emit_def)

lemma called_frame [simp]:
  "groups (called s) = groups s" "last_run (called s) = last_run s"
  "limiter (called s) = limiter s" "g_values (called s) = g_values s"
  "next_ptr (called s) = next_ptr s" "tick (called s) = Suc (tick s)"
  "srt_addr (called s) = srt_addr s" "epoll_fd (called s) = epoll_fd s" "out (called s) = out s"
  by (simp_all add: called_def)

lemma counted_frame [simp]:
  "groups (counted c n s) = groups s" "last_run (counted c n s) = last_run s"
  "limiter (counted c n s) = limiter s" "g_values (counted c n s) = inc c n (g_values s)"
  "next_ptr (counted c n s) = next_ptr s" "tick (counted c n s) = tick s"
  "srt_addr (counted c n s) = srt_addr s" "epoll_fd (counted c n s) = epoll_fd s"
  "out (counted c n s) = out s"
  by (simp_all add: counted_def)

lemma upd_group_frame [simp]:
  "groups (upd_group p f s) = map (\<lambda>g. if gptr g = p then f g else g) (groups s)"
  "last_run (upd_group p f s) = last_run s" "limiter (upd_group p f s) = limiter s"
  "g_values (upd_group p f s) = g_values s" "next_ptr (upd_group p f s) = next_ptr s"
  "tick (upd_group p f s) = tick s" "srt_addr (upd_group p f s) = srt_addr s"
  "epoll_fd (upd_group p f s) = epoll_fd s" "out (upd_group p f s) = out s"
  by (simp_all add: upd_group_def)

lemma get_local_port_frame [simp]: "snd (get_local_port os fd s) = called s"
  by (simp add: get_local_port_def)

text \<open>Only the environment side of the state moves.\<close>

definition same_core :: "receiver \<Rightarrow> receiver \<Rightarrow> bool" where
  "same_core s s' \<longleftrightarrow> groups s' = groups s \<and> last_run s' = last_run s \<and> limiter s' = limiter s \<and>
     g_values s' = g_values s \<and> next_ptr s' = next_ptr s"

lemma same_core_refl [simp]: "same_core s s"
  by (simp add: same_core_def)

lemma same_core_trans [trans]: "same_core s s' \<Longrightarrow> same_core s' s'' \<Longrightarrow> same_core s s''"
  by (simp add: same_core_def)

lemma same_core_steps [simp]: "same_core s (called s)" "same_core s (emit e s)"
  by (simp_all add: same_core_def)

lemma same_core_groups: "same_core s s' \<Longrightarrow> groups s' = groups s"
  by (simp add: same_core_def)

lemma write_socket_info_file_core: "same_core s (write_socket_info_file os g s)"
  by (simp add: same_core_def write_socket_info_file_def split_def Let_def)

lemma remove_socket_info_file_core: "same_core s (remove_socket_info_file os g s)"
  by (simp add: same_core_def remove_socket_info_file_def split_def Let_def)

lemma destroy_group_core: "same_core s (destroy_group os g s)"
  using remove_socket_info_file_core [of s os g]
  by (simp add: same_core_def destroy_group_def Let_def)

lemma send_padded_core: "same_core s (snd (send_padded os addr buf s))"
  by (simp add: same_core_def send_padded_def)

lemma read_random_core: "same_core s (snd (read_random os len good buffer s))"
proof (induction os len good buffer s rule: read_random.induct)
  case (1 os len good buffer s)
  show ?case
    using "1.IH" by (subst read_random.simps) (auto simp: same_core_def Let_def)
qed

lemma get_random_bytes_core: "same_core s (snd (get_random_bytes os len s))"
  using read_random_core [of "called s" os len True "[]"]
  by (simp add: same_core_def get_random_bytes_def)

lemma read_random_length:
  "length buffer \<le> len \<Longrightarrow> fst (read_random os len good buffer s) = Some r \<Longrightarrow> length r = len"
proof (induction os len good buffer s rule: read_random.induct)
  case (1 os len good buffer s)
  define chunk where "chunk = (if good then take (len - length buffer) (os_read os (tick s) (len - length buffer)) else [])"
  from "1.prems"(2) consider "buffer = r" "len \<le> length buffer"
    | "length buffer < len" "chunk \<noteq> []"
      "fst (read_random os len (length chunk = len - length buffer) (buffer @ chunk) (called s)) = Some r"
    by (auto simp: read_random.simps [of os len good buffer s] chunk_def [symmetric] Let_def
        split: if_splits)
  then show ?case
  proof cases
    case 1
    with "1.prems"(1) show ?thesis by simp
  next
    case 2
    have "length chunk \<le> len - length buffer" by (simp add: chunk_def)
    then have "length (buffer @ chunk) \<le> len" using 2(1) by simp
    from "1.IH" [OF 2(1) chunk_def 2(2) this 2(3)] show ?thesis .
  qed
qed

lemma get_random_bytes_length: "fst (get_random_bytes os len s) = Some r \<Longrightarrow> length r = len"
  by (auto simp: get_random_bytes_def split: if_splits dest: read_random_length [rotated])

section \<open>Effects are only appended\<close>

definition grows :: "receiver \<Rightarrow> receiver \<Rightarrow> bool" where
  "grows s s' \<longleftrightarrow> (\<exists>es. out s' = out s @ es)"

lemma grows_trans [trans]: "grows s s' \<Longrightarrow> grows s' s'' \<Longrightarrow> grows s s''"
  by (auto simp: grows_def)

lemma grows_same: "out s' = out s \<Longrightarrow> grows s s'"
  by (simp add: grows_def)

lemma grows_destroy_group: "grows s (destroy_group os g s)"
  by (auto simp: grows_def destroy_group_def remove_socket_info_file_def Let_def split_def)

lemma grows_fold_destroy: "grows s (fold (destroy_group os) gs s)"
proof (induction gs arbitrary: s)
  case (Cons g gs)
  show ?case using grows_trans [OF grows_destroy_group Cons] by simp
qed (simp add: grows_same)

end
