(* ===== verification/Registry.thy ===== *)
theory Registry
  imports Receiver_State
begin

text \<open>
  The connection registry (\<open>connection/connection_registry.cpp\<close>): lookups by identifier and by
  address, eviction of the oldest group that never streamed, the periodic cleanup; and the
  invariant of the group table that every operation of the receiver keeps.
\<close>

section \<open>Operations\<close>

definition add_group :: "connection_group \<Rightarrow> receiver \<Rightarrow> receiver" where
  "add_group g s = s\<lparr>groups := groups s @ [g]\<rparr>"

text \<open>Removal drops the last owning reference, so the destructor runs.\<close>

definition registry_remove_group :: "os \<Rightarrow> nat \<Rightarrow> receiver \<Rightarrow> receiver" where
  "registry_remove_group os p s =
     fold (destroy_group os) (filter (\<lambda>g. gptr g = p) (groups s))
       (s\<lparr>groups := filter (\<lambda>g. gptr g \<noteq> p) (groups s)\<rparr>)"

fun oldest_pending :: "connection_group list \<Rightarrow> connection_group option \<Rightarrow> connection_group option" where
  "oldest_pending [] oldest = oldest"
| "oldest_pending (g # gs) oldest =
     (if conns g \<noteq> [] \<or> data_seen g then oldest_pending gs oldest
      else case oldest of
        None \<Rightarrow> oldest_pending gs (Some g)
      | Some h \<Rightarrow> oldest_pending gs (if created_at g < created_at h then Some g else Some h))"

definition evict_oldest_pending_group :: "os \<Rightarrow> receiver \<Rightarrow> bool \<times> receiver" where
  "evict_oldest_pending_group os s =
     (case oldest_pending (groups s) None of
        None \<Rightarrow> (False, s)
      | Some g \<Rightarrow>
          (True, registry_remove_group os (gptr g) (counted GROUPS_REMOVED_EVICTED 1 s)))"

definition find_group_by_id :: "byte list \<Rightarrow> connection_group list \<Rightarrow> connection_group option" where
  "find_group_by_id ident gs =
     find (\<lambda>g. constant_time_compare (gid g) ident SRTLA_ID_LEN = 0) gs"

fun find_conn :: "sockaddr_storage \<Rightarrow> connection list \<Rightarrow> nat option" where
  "find_conn addr [] = None"
| "find_conn addr (c # cs) =
     (if addresses_equal (address c) addr then Some 0 else map_option Suc (find_conn addr cs))"

text \<open>The group and, when it is one of its connections, the position of the address.\<close>

fun find_by_address :: "sockaddr_storage \<Rightarrow> connection_group list \<Rightarrow> (nat \<times> nat option) option" where
  "find_by_address addr [] = None"
| "find_by_address addr (g # gs) =
     (case find_conn addr (conns g) of
        Some i \<Rightarrow> Some (gptr g, Some i)
      | None \<Rightarrow> if addresses_equal (last_addr g) addr then Some (gptr g, None)
                else find_by_address addr gs)"

definition check_recovery :: "time_t \<Rightarrow> connection \<Rightarrow> receiver \<Rightarrow> connection \<times> receiver" where
  "check_recovery current_time conn s =
     (if recovery_start conn > 0 then
        if last_rcvd conn > recovery_start conn then
          if current_time - recovery_start conn > RECOVERY_CHANCE_PERIOD
          then (conn\<lparr>recovery_start := 0\<rparr>, counted RECOVERY_COMPLETED 1 s)
          else (conn, s)
        else if recovery_start conn + RECOVERY_CHANCE_PERIOD < current_time
        then (conn\<lparr>recovery_start := 0\<rparr>, counted RECOVERY_FAILED 1 s)
        else (conn, s)
      else (conn, s))"

type_synonym keepalive_cb = "connection \<Rightarrow> time_t \<Rightarrow> receiver \<Rightarrow> receiver"

fun cleanup_conns :: "keepalive_cb option \<Rightarrow> time_t \<Rightarrow> connection list \<Rightarrow> receiver
    \<Rightarrow> connection list \<times> receiver" where
  "cleanup_conns cb current_time [] s = ([], s)"
| "cleanup_conns cb current_time (c # cs) s =
     (let (conn, s) = check_recovery current_time c s
      in if conn_timed_out conn current_time
         then cleanup_conns cb current_time cs (counted CONNECTIONS_REMOVED 1 s)
         else let s = (case cb of
                         None \<Rightarrow> s
                       | Some keepalive \<Rightarrow>
                           if last_rcvd conn + KEEPALIVE_PERIOD < current_time
                           then keepalive conn current_time s else s);
                  (rest, s) = cleanup_conns cb current_time cs s
              in (conn # rest, s))"

fun cleanup_groups :: "os \<Rightarrow> keepalive_cb option \<Rightarrow> time_t \<Rightarrow> connection_group list \<Rightarrow> receiver
    \<Rightarrow> connection_group list \<times> receiver" where
  "cleanup_groups os cb current_time [] s = ([], s)"
| "cleanup_groups os cb current_time (g # gs) s =
     (let before_conns = length (conns g);
          (cs, s) = cleanup_conns cb current_time (conns g) s;
          g = g\<lparr>conns := cs\<rparr>;
          empty_timeout = (if data_seen g then GROUP_TIMEOUT else PENDING_GROUP_TIMEOUT)
      in if cs = [] \<and> created_at g + empty_timeout < current_time
         then cleanup_groups os cb current_time gs
                (destroy_group os g (counted GROUPS_REMOVED_IDLE 1 s))
         else let s = (if before_conns \<noteq> length cs then write_socket_info_file os g s else s);
                  (rest, s) = cleanup_groups os cb current_time gs s
              in (g # rest, s))"

definition cleanup_inactive ::
    "os \<Rightarrow> keepalive_cb option \<Rightarrow> time_t \<Rightarrow> receiver \<Rightarrow> receiver" where
  "cleanup_inactive os cb current_time s =
     (if last_run s + CLEANUP_PERIOD > current_time then s
      else let s = s\<lparr>last_run := current_time\<rparr>
           in if groups s = [] then s
              else let (gs, s) = cleanup_groups os cb current_time (groups s) s
                   in s\<lparr>groups := gs\<rparr>)"

section \<open>The invariant of the group table\<close>

definition wf_stats :: "connection_stats \<Rightarrow> bool" where
  "wf_stats st \<longleftrightarrow> length (rtt_history st) = RTT_HISTORY_SIZE \<and>
     unat (rtt_history_idx st) < RTT_HISTORY_SIZE"

definition wf_conn :: "connection \<Rightarrow> bool" where
  "wf_conn c \<longleftrightarrow> length (recv_log c) = RECV_ACK_INT \<and>
     0 \<le> recv_idx c \<and> recv_idx c \<le> int RECV_ACK_INT \<and> wf_stats (stats c)"

text \<open>The client addresses a group answers for.\<close>
definition owned :: "connection_group \<Rightarrow> (u16 \<times> byte list \<times> u16) set" where
  "owned g = insert (addr_key (last_addr g)) ((addr_key \<circ> address) ` set (conns g))"

definition wf_group :: "connection_group \<Rightarrow> bool" where
  "wf_group g \<longleftrightarrow> length (conns g) \<le> MAX_CONNS_PER_GROUP \<and> list_all wf_conn (conns g) \<and>
     distinct (map (addr_key \<circ> address) (conns g)) \<and> (srt_sock g = -1 \<or> 0 \<le> srt_sock g \<and> data_seen g)"

definition wf_groups :: "connection_group list \<Rightarrow> nat \<Rightarrow> bool" where
  "wf_groups gs bound \<longleftrightarrow> length gs \<le> MAX_GROUPS \<and> list_all wf_group gs \<and>
     distinct (map gptr gs) \<and> (\<forall>g\<in>set gs. gptr g < bound) \<and>
     (\<forall>g\<in>set gs. \<forall>h\<in>set gs. gptr g \<noteq> gptr h \<longrightarrow> owned g \<inter> owned h = {})"

definition wf_receiver :: "receiver \<Rightarrow> bool" where
  "wf_receiver s \<longleftrightarrow> wf_groups (groups s) (next_ptr s) \<and> distinct (map fst (limiter s))"

section \<open>Lookup by address\<close>

lemma find_conn_Some:
  "find_conn a cs = Some i \<Longrightarrow> i < length cs \<and> addr_key (address (cs ! i)) = addr_key a"
  by (induction cs arbitrary: i) (auto simp: addresses_equal_key split: if_splits)

lemma find_conn_None: "find_conn a cs = None \<longleftrightarrow> addr_key a \<notin> (addr_key \<circ> address) ` set cs"
  by (induction cs) (auto simp: addresses_equal_key)

lemma find_by_address_None:
  "find_by_address a gs = None \<longleftrightarrow> (\<forall>g\<in>set gs. addr_key a \<notin> owned g)"
proof (induction gs)
  case (Cons g gs)
  show ?case
  proof (cases "find_conn a (conns g)")
    case None
    moreover from None have "addr_key a \<notin> (addr_key \<circ> address) ` set (conns g)"
      using find_conn_None by blast
    ultimately show ?thesis using Cons.IH by (auto simp: owned_def addresses_equal_key)
  next
    case (Some i)
    moreover from Some have "addr_key a \<in> (addr_key \<circ> address) ` set (conns g)"
      using find_conn_None [of a "conns g"] by auto
    ultimately show ?thesis by (auto simp: owned_def)
  qed
qed simp

lemma find_by_address_Some:
  assumes "find_by_address a gs = Some (p, r)"
  shows "\<exists>g\<in>set gs. gptr g = p \<and> addr_key a \<in> owned g \<and> r = find_conn a (conns g)"
  using assms
proof (induction gs)
  case (Cons g gs)
  show ?case
  proof (cases "find_conn a (conns g)")
    case None
    with Cons show ?thesis
      by (auto simp: owned_def addresses_equal_key split: if_splits)
  next
    case (Some i)
    then have "addr_key a \<in> owned g"
      using find_conn_None [of a "conns g"] by (auto simp: owned_def)
    with Some Cons.prems show ?thesis by auto
  qed
qed simp

text \<open>A group that owns an address is the one the lookup finds.\<close>

lemma find_by_address_owned:
  assumes "wf_groups gs b" and "g \<in> set gs" and "addr_key a \<in> owned g"
  shows "find_by_address a gs = Some (gptr g, find_conn a (conns g))"
proof -
  obtain p r where fa: "find_by_address a gs = Some (p, r)"
    using assms(2,3) find_by_address_None [of a gs] by (cases "find_by_address a gs") auto
  then obtain h where h: "h \<in> set gs" "gptr h = p" "addr_key a \<in> owned h" "r = find_conn a (conns h)"
    using find_by_address_Some by blast
  with assms have "gptr g = gptr h" unfolding wf_groups_def by (metis disjoint_iff)
  with assms h(1) have "g = h" unfolding wf_groups_def by (metis distinct_map inj_onD)
  with fa h show ?thesis by simp
qed

section \<open>Updates keep the invariant\<close>

lemma distinct_gptr:
  "distinct (map gptr gs) \<Longrightarrow> g \<in> set gs \<Longrightarrow> h \<in> set gs \<Longrightarrow> gptr g = gptr h \<Longrightarrow> g = h"
  by (metis distinct_map inj_onD)

text \<open>
  The general rule: every group keeps its identity and stays well-formed, and only the group
  \<open>p\<close> may gain addresses, taken from a set \<open>K\<close> that no other group owns.
\<close>

lemma wf_groups_map:
  assumes wf: "wf_groups gs b"
    and f: "\<And>g. g \<in> set gs \<Longrightarrow> gptr (f g) = gptr g \<and> wf_group (f g) \<and>
          owned (f g) \<subseteq> owned g \<union> (if gptr g = p then K else {})"
    and K: "\<And>g. g \<in> set gs \<Longrightarrow> gptr g \<noteq> p \<Longrightarrow> owned g \<inter> K = {}"
  shows "wf_groups (map f gs) b"
proof -
  have "map (gptr \<circ> f) gs = map gptr gs" using f by simp
  with wf have "distinct (map (gptr \<circ> f) gs)" by (simp only: wf_groups_def)
  moreover have "owned (f g) \<inter> owned (f h) = {}"
    if "g \<in> set gs" "h \<in> set gs" "gptr g \<noteq> gptr h" for g h
  proof -
    have "owned g \<inter> owned h = {}" using wf that unfolding wf_groups_def by blast
    moreover have "owned (f g) \<subseteq> owned g \<union> (if gptr g = p then K else {})"
      "owned (f h) \<subseteq> owned h \<union> (if gptr h = p then K else {})"
      using f that by blast+
    ultimately show ?thesis using K [OF that(1)] K [OF that(2)] that(3)
      by (auto split: if_splits)
  qed
  ultimately show ?thesis
    using wf f unfolding wf_groups_def by (auto simp: list_all_iff)
qed

lemma wf_groups_filter: "wf_groups gs b \<Longrightarrow> wf_groups (filter P gs) b"
  unfolding wf_groups_def
  by (auto simp: list_all_iff distinct_map_filter intro: order_trans [OF length_filter_le])

lemma wf_groups_snoc:
  assumes "wf_groups gs b" and "length gs < MAX_GROUPS" and "wf_group g" and "gptr g = b"
    and "\<And>h. h \<in> set gs \<Longrightarrow> owned h \<inter> owned g = {}"
  shows "wf_groups (gs @ [g]) (Suc b)"
  using assms unfolding wf_groups_def by (auto simp: list_all_iff less_Suc_eq)


text \<open>The contract of an update of one group: identity kept, invariant kept, no new address.\<close>

locale group_update =
  fixes f :: "connection_group \<Rightarrow> connection_group"
  assumes keeps_ptr: "gptr (f g) = gptr g"
    and keeps_wf: "wf_group g \<Longrightarrow> wf_group (f g)"
    and keeps_owned: "owned (f g) \<subseteq> owned g"
    and keeps_sock: "srt_sock (f g) = srt_sock g"
    and keeps_seen: "data_seen g \<Longrightarrow> data_seen (f g)"
begin

lemma keeps_addresses: "owned (f g) \<inter> K = {}" if "owned g \<inter> K = {}"
  using keeps_owned [of g] that by blast

end

text \<open>The contract of an update of one connection, and the group update it gives.\<close>

locale conn_update =
  fixes f :: "connection \<Rightarrow> connection"
  assumes keeps_conn: "wf_conn c \<Longrightarrow> wf_conn (f c)"
    and keeps_address: "address (f c) = address c"
begin

lemma map_address_update: "map (addr_key \<circ> address) (cs[i := f (cs ! i)]) = map (addr_key \<circ> address) cs"
  by (cases "i < length cs")
    (simp_all add: map_update keeps_address list_update_same_conv list_update_beyond)

lemma wf_group_map_conn: "wf_group g \<Longrightarrow> wf_group (map_conn i f g)"
  unfolding wf_group_def map_conn_def
  using map_address_update [of "conns g" i]
  by (cases "i < length (conns g)")
    (auto simp: list_all_iff keeps_conn list_update_beyond dest!: set_update_subset_insert [THEN subsetD])

lemma owned_map_conn: "owned (map_conn i f g) = owned g"
proof -
  have "(addr_key \<circ> address) ` set ((conns g)[i := f (conns g ! i)]) =
      (addr_key \<circ> address) ` set (conns g)"
    by (metis list.set_map map_address_update)
  then show ?thesis by (simp add: owned_def map_conn_def comp_def)
qed

end

sublocale conn_update \<subseteq> group: group_update "map_conn i f"
  by unfold_locales (simp_all add: wf_group_map_conn owned_map_conn, simp_all add: map_conn_def)

text \<open>The contract of an update of the statistics of a connection.\<close>

locale stats_update =
  fixes f :: "connection_stats \<Rightarrow> connection_stats"
  assumes keeps_stats: "wf_stats st \<Longrightarrow> wf_stats (f st)"

sublocale stats_update \<subseteq> conn: conn_update "upd_stats f"
  by unfold_locales (simp_all add: upd_stats_def wf_conn_def keeps_stats)

text \<open>The members that the handlers only read or never use.\<close>

interpretation extensions: conn_update "set_extensions_negotiated b" for b
  by unfold_locales (simp_all add: set_extensions_negotiated_def wf_conn_def)

interpretation capabilities: conn_update "set_sender_capabilities caps" for caps
  by unfold_locales (simp_all add: set_sender_capabilities_def wf_conn_def)

interpretation balancing: group_update "set_load_balancing_enabled b" for b
  by unfold_locales (simp_all add: set_load_balancing_enabled_def wf_group_def owned_def)

section \<open>Eviction\<close>

lemma filter_other_keys:
  assumes "distinct (map k (xs @ x # ys))"
  shows "filter (\<lambda>y. k y \<noteq> k x) (xs @ x # ys) = xs @ ys"
proof -
  from assms have "\<forall>y\<in>set xs. k y \<noteq> k x" "\<forall>y\<in>set ys. k y \<noteq> k x" by (auto simp: image_iff)
  then show ?thesis by simp
qed

definition pending :: "connection_group \<Rightarrow> bool" where
  "pending g \<longleftrightarrow> conns g = [] \<and> \<not> data_seen g"

lemma oldest_pending_None: "oldest_pending gs oldest = None \<longleftrightarrow> oldest = None \<and> (\<forall>g\<in>set gs. \<not> pending g)"
  by (induction gs arbitrary: oldest) (auto simp: pending_def split: option.splits)

lemma oldest_pending_Some:
  assumes "oldest_pending gs oldest = Some g"
  shows "(g \<in> set gs \<and> pending g \<or> oldest = Some g) \<and>
     (\<forall>h\<in>set gs. pending h \<longrightarrow> created_at g \<le> created_at h) \<and>
     (\<forall>h. oldest = Some h \<longrightarrow> created_at g \<le> created_at h)"
  using assms
  by (induction gs arbitrary: oldest)
    (fastforce simp: pending_def split: if_splits option.splits)+

lemma same_core_fold_destroy: "same_core s (fold (destroy_group os) gs s)"
proof (induction gs arbitrary: s)
  case (Cons g gs)
  have "same_core s (destroy_group os g s)" by (rule destroy_group_core)
  with Cons [of "destroy_group os g s"] show ?case by (auto simp: same_core_def)
qed simp

lemma registry_remove_group_fields [simp]:
  "groups (registry_remove_group os p s) = filter (\<lambda>g. gptr g \<noteq> p) (groups s)"
  "limiter (registry_remove_group os p s) = limiter s"
  "next_ptr (registry_remove_group os p s) = next_ptr s"
  "last_run (registry_remove_group os p s) = last_run s"
  "g_values (registry_remove_group os p s) = g_values s"
  using same_core_fold_destroy
    [of "s\<lparr>groups := filter (\<lambda>g. gptr g \<noteq> p) (groups s)\<rparr>" os "filter (\<lambda>g. gptr g = p) (groups s)"]
  by (simp_all add: registry_remove_group_def same_core_def)

lemma wf_registry_remove_group [intro]:
  "wf_receiver s \<Longrightarrow> wf_receiver (registry_remove_group os p s)"
  by (simp add: wf_receiver_def wf_groups_filter)

text \<open>C36. Eviction takes exactly one group: the oldest of those that have no connection
  and never forwarded SRT data. Every other group stays in the table, in order, and
  when no group is pending nothing is evicted and the state is unchanged.\<close>

theorem evict_only_oldest_pending:
  assumes "wf_receiver s"
  shows "case evict_oldest_pending_group os s of
      (False, s') \<Rightarrow> s' = s \<and> (\<forall>g\<in>set (groups s). conns g \<noteq> [] \<or> data_seen g)
    | (True, s') \<Rightarrow> (\<exists>xs g ys. groups s = xs @ g # ys \<and> groups s' = xs @ ys \<and>
          conns g = [] \<and> \<not> data_seen g \<and>
          (\<forall>h\<in>set (groups s). conns h = [] \<and> \<not> data_seen h \<longrightarrow> created_at g \<le> created_at h))"
proof (cases "oldest_pending (groups s) None")
  case None
  moreover from None have "\<forall>g\<in>set (groups s). \<not> pending g" using oldest_pending_None by blast
  ultimately show ?thesis
    by (auto simp: evict_oldest_pending_group_def pending_def)
next
  case (Some g)
  from oldest_pending_Some [OF Some] have g: "g \<in> set (groups s)" "pending g"
    "\<forall>h\<in>set (groups s). pending h \<longrightarrow> created_at g \<le> created_at h" by auto
  then obtain xs ys where gs: "groups s = xs @ g # ys" by (meson split_list)
  moreover have "distinct (map gptr (groups s))"
    using assms by (simp add: wf_receiver_def wf_groups_def)
  ultimately have "filter (\<lambda>h. gptr h \<noteq> gptr g) (groups s) = xs @ ys"
    by (simp only: filter_other_keys)
  with Some g gs show ?thesis
    by (auto simp: evict_oldest_pending_group_def pending_def)
qed


section \<open>Cleanup\<close>

text \<open>What a cleanup leaves of a connection and of a group.\<close>

definition settle_recovery :: "time_t \<Rightarrow> connection \<Rightarrow> connection" where
  "settle_recovery t c =
     (if 0 < recovery_start c \<and> t - recovery_start c > RECOVERY_CHANCE_PERIOD
      then c\<lparr>recovery_start := 0\<rparr> else c)"

definition live_conns :: "time_t \<Rightarrow> connection_group \<Rightarrow> connection list" where
  "live_conns t g = map (settle_recovery t) (filter (\<lambda>c. \<not> conn_timed_out c t) (conns g))"

definition reaped :: "time_t \<Rightarrow> connection_group \<Rightarrow> bool" where
  "reaped t g \<longleftrightarrow> (\<forall>c\<in>set (conns g). conn_timed_out c t) \<and>
     t > created_at g + (if data_seen g then GROUP_TIMEOUT else PENDING_GROUP_TIMEOUT)"

lemma check_recovery_fst: "fst (check_recovery t c s) = settle_recovery t c"
  by (auto simp: check_recovery_def settle_recovery_def)

lemma settle_recovery_fields [simp]:
  "last_rcvd (settle_recovery t c) = last_rcvd c" "address (settle_recovery t c) = address c"
  "conn_timed_out (settle_recovery t c) u = conn_timed_out c u"
  by (simp_all add: settle_recovery_def conn_timed_out_def)

lemma cleanup_conns_fst:
  "fst (cleanup_conns cb t cs s) = map (settle_recovery t) (filter (\<lambda>c. \<not> conn_timed_out c t) cs)"
proof (induction cs arbitrary: s)
  case (Cons c cs)
  then show ?case
    using check_recovery_fst [of t c s]
    by (auto simp: Let_def split_def)
qed simp

lemma cleanup_groups_fst:
  "fst (cleanup_groups os cb t gs s) =
     map (\<lambda>g. g\<lparr>conns := live_conns t g\<rparr>) (filter (\<lambda>g. \<not> reaped t g) gs)"
proof (induction gs arbitrary: s)
  case (Cons g gs)
  then show ?case
    using cleanup_conns_fst [of cb t "conns g" s]
    by (auto simp: Let_def split_def reaped_def live_conns_def filter_empty_conv)
qed simp

lemma cleanup_inactive_groups:
  "groups (cleanup_inactive os cb t s) =
     (if last_run s + CLEANUP_PERIOD > t then groups s
      else map (\<lambda>g. g\<lparr>conns := live_conns t g\<rparr>) (filter (\<lambda>g. \<not> reaped t g) (groups s)))"
  using cleanup_groups_fst [of os cb t "groups s" "s\<lparr>last_run := t\<rparr>"]
  by (auto simp: cleanup_inactive_def Let_def split_def)

section \<open>The operations keep the invariant\<close>

lemma wf_receiver_cong:
  "groups s' = groups s \<Longrightarrow> next_ptr s' = next_ptr s \<Longrightarrow> limiter s' = limiter s \<Longrightarrow>
     wf_receiver s' = wf_receiver s"
  by (simp add: wf_receiver_def)

lemma same_core_wf: "same_core s s' \<Longrightarrow> wf_receiver s' = wf_receiver s"
  by (simp add: same_core_def wf_receiver_def)

lemma wf_receiver_frame [simp]:
  "wf_receiver (emit e s) = wf_receiver s" "wf_receiver (called s) = wf_receiver s"
  "wf_receiver (counted c n s) = wf_receiver s"
  by (simp_all add: wf_receiver_def)

lemma wf_group_in: "wf_receiver s \<Longrightarrow> g \<in> set (groups s) \<Longrightarrow> wf_group g"
  by (simp add: wf_receiver_def wf_groups_def list_all_iff)

lemma get_group_Some: "get_group p s = Some g \<Longrightarrow> g \<in> set (groups s) \<and> gptr g = p"
  by (auto simp: get_group_def find_Some_iff)

lemma get_group_None: "get_group p s = None \<longleftrightarrow> p \<notin> gptr ` set (groups s)"
  by (auto simp: get_group_def find_None_iff)

lemma get_group_in:
  assumes "wf_receiver s" and "g \<in> set (groups s)"
  shows "get_group (gptr g) s = Some g"
proof -
  have d: "distinct (map gptr (groups s))" using assms by (simp add: wf_receiver_def wf_groups_def)
  obtain h where h: "get_group (gptr g) s = Some h"
    using assms(2) get_group_None [of "gptr g" s] by (cases "get_group (gptr g) s") auto
  with get_group_Some [OF h] show ?thesis using distinct_gptr [OF d _ assms(2)] by auto
qed

text \<open>After an update of the group \<open>p\<close> the lookup sees it, and no other.\<close>

lemma get_group_upd:
  assumes "\<And>g. gptr (f g) = gptr g"
  shows "get_group q (upd_group p f s) = (if q = p then map_option f (get_group q s) else get_group q s)"
proof -
  have "find (\<lambda>g. gptr g = q) (map (\<lambda>g. if gptr g = p then f g else g) gs) =
      (if q = p then map_option f (find (\<lambda>g. gptr g = q) gs) else find (\<lambda>g. gptr g = q) gs)" for gs
    by (induction gs) (use assms in auto)
  then show ?thesis by (simp add: get_group_def)
qed

lemma get_group_frame [simp]:
  "get_group p (emit e s) = get_group p s" "get_group p (called s) = get_group p s"
  "get_group p (counted c n s) = get_group p s"
  by (simp_all add: get_group_def)

lemma wf_evict:
  assumes "wf_receiver s" and "evict_oldest_pending_group os s = (ok, s')"
  shows "wf_receiver s'"
  using assms by (auto simp: evict_oldest_pending_group_def split: option.splits)

lemma evict_room:
  assumes "wf_receiver s" and "evict_oldest_pending_group os s = (True, s')"
  shows "length (groups s') < length (groups s)"
proof -
  obtain g where g: "oldest_pending (groups s) None = Some g"
    "s' = registry_remove_group os (gptr g) (counted GROUPS_REMOVED_EVICTED 1 s)"
    using assms(2) by (auto simp: evict_oldest_pending_group_def split: option.splits)
  then have "g \<in> set (groups s)" using oldest_pending_Some [OF g(1)] by auto
  then show ?thesis using g by (auto intro!: length_filter_less)
qed

end
