(* ===== verification/Lifecycle.thy ===== *)
theory Lifecycle
  imports Registry "HOL-Library.Multiset"
begin

text \<open>
  The abstract life of a group: it enters the table with a fresh identity, is updated in
  place, gets one SRT socket, and leaves. \<open>view\<close> forgets everything about a receiver but the
  tables, the counters of entering and leaving groups, and the descriptors opened and closed;
  \<open>vstep\<close> lists the transitions a handler may make on that view. The handlers are shown to
  refine sequences of such transitions, so an invariant of \<open>vstep\<close> is one of the program.
\<close>

section \<open>The abstract machine\<close>

record registry_view =
  table :: "connection_group list"
  fresh :: nat
  throttle :: auth_entries
  registered :: u64
  removed :: u64
  opened :: "int list"
  closed :: "int list"

definition opened_in :: "effect list \<Rightarrow> int list" where
  "opened_in es = concat (map (\<lambda>e. case e of Opened fd \<Rightarrow> [fd] | _ \<Rightarrow> []) es)"

definition closed_in :: "effect list \<Rightarrow> int list" where
  "closed_in es = concat (map (\<lambda>e. case e of Closed fd \<Rightarrow> [fd] | _ \<Rightarrow> []) es)"

definition removed_count :: "counters \<Rightarrow> u64" where
  "removed_count v = v GROUPS_REMOVED_IDLE + v GROUPS_REMOVED_AUTH +
     v GROUPS_REMOVED_SRT_ERROR + v GROUPS_REMOVED_EVICTED"

definition view :: "receiver \<Rightarrow> registry_view" where
  "view s = \<lparr>table = groups s, fresh = next_ptr s, throttle = limiter s,
     registered = g_values s GROUP_REGISTRATIONS, removed = removed_count (g_values s),
     opened = opened_in (out s), closed = closed_in (out s)\<rparr>"

definition replace_group :: "nat \<Rightarrow> (connection_group \<Rightarrow> connection_group)
    \<Rightarrow> connection_group list \<Rightarrow> connection_group list" where
  "replace_group p f gs = map (\<lambda>g. if gptr g = p then f g else g) gs"

text \<open>An update may give the group \<open>p\<close> new addresses \<open>K\<close> only if nobody else has them.\<close>

definition allowed_update :: "nat \<Rightarrow> (connection_group \<Rightarrow> connection_group) \<Rightarrow>
    (u16 \<times> byte list \<times> u16) set \<Rightarrow> connection_group list \<Rightarrow> bool" where
  "allowed_update p f K gs \<longleftrightarrow>
     (\<forall>g\<in>set gs. if gptr g = p
        then gptr (f g) = p \<and> (wf_group g \<longrightarrow> wf_group (f g)) \<and> owned (f g) \<subseteq> owned g \<union> K
        else owned g \<inter> K = {})"

definition keeps_socket :: "nat \<Rightarrow> (connection_group \<Rightarrow> connection_group) \<Rightarrow>
    connection_group list \<Rightarrow> bool" where
  "keeps_socket p f gs \<longleftrightarrow> (\<forall>g\<in>set gs. gptr g = p \<longrightarrow> srt_sock (f g) = srt_sock g)"

inductive vstep :: "registry_view \<Rightarrow> registry_view \<Rightarrow> bool" where
  enter: "length (table a) < MAX_GROUPS \<Longrightarrow> wf_group g \<Longrightarrow> srt_sock g = -1 \<Longrightarrow> gptr g = fresh a \<Longrightarrow>
     (\<And>h. h \<in> set (table a) \<Longrightarrow> owned h \<inter> owned g = {}) \<Longrightarrow>
     vstep a (a\<lparr>table := table a @ [g], fresh := Suc (fresh a), registered := registered a + 1\<rparr>)"
| discard: "vstep a (a\<lparr>fresh := Suc (fresh a)\<rparr>)"
| update: "allowed_update p f K (table a) \<Longrightarrow> keeps_socket p f (table a) \<Longrightarrow>
     vstep a (a\<lparr>table := replace_group p f (table a)\<rparr>)"
| attach: "table a = xs @ g # ys \<Longrightarrow> srt_sock g = -1 \<Longrightarrow> data_seen g \<Longrightarrow> 0 \<le> fd \<Longrightarrow>
     vstep a (a\<lparr>table := xs @ g\<lparr>srt_sock := fd, group_epoll_fd := e\<rparr> # ys, opened := opened a @ [fd]\<rparr>)"
| leave: "table a = xs @ g # ys \<Longrightarrow>
     vstep a (a\<lparr>table := xs @ ys, removed := removed a + 1,
                closed := closed a @ (if srt_sock g > 0 then [srt_sock g] else [])\<rparr>)"
| transient: "vstep a (a\<lparr>opened := opened a @ [fd], closed := closed a @ [fd]\<rparr>)"
| penalise: "vstep a (a\<lparr>throttle := record_failure addr t (throttle a)\<rparr>)"
| forgive: "vstep a (a\<lparr>throttle := limiter_cleanup t (throttle a)\<rparr>)"

inductive_cases vstepE: "vstep a b"

section \<open>Invariants of the abstract machine\<close>

text \<open>A state predicate that a step relation preserves, and what follows for its runs.\<close>

locale invariant_of =
  fixes step :: "'s \<Rightarrow> 's \<Rightarrow> bool" and inv :: "'s \<Rightarrow> bool"
  assumes step_keeps: "step a b \<Longrightarrow> inv a \<Longrightarrow> inv b"
begin

lemma steps_keep: "step\<^sup>*\<^sup>* a b \<Longrightarrow> inv a \<Longrightarrow> inv b"
  by (induction rule: rtranclp_induct) (blast intro: step_keeps)+

end

definition wf_view :: "registry_view \<Rightarrow> bool" where
  "wf_view a \<longleftrightarrow> wf_groups (table a) (fresh a) \<and> distinct (map fst (throttle a))"

text \<open>Every registration is either still in the table or was counted as a removal.\<close>

definition balanced_groups :: "registry_view \<Rightarrow> bool" where
  "balanced_groups a \<longleftrightarrow> registered a = removed a + of_nat (length (table a))"

text \<open>Every descriptor but 0 was opened as often as it was closed or is held by a group.\<close>

definition balanced_fds :: "registry_view \<Rightarrow> bool" where
  "balanced_fds a \<longleftrightarrow>
     filter_mset (\<lambda>fd. 0 < fd) (mset (opened a)) =
     filter_mset (\<lambda>fd. 0 < fd) (mset (closed a)) +
     filter_mset (\<lambda>fd. 0 < fd) (mset (map srt_sock (table a)))"

lemma wf_view_view [simp]: "wf_view (view s) = wf_receiver s"
  by (simp add: wf_view_def wf_receiver_def view_def)

lemma wf_groups_remove: "wf_groups (xs @ g # ys) b \<Longrightarrow> wf_groups (xs @ ys) b"
  unfolding wf_groups_def by (auto simp: list_all_iff)

lemma wf_groups_fresh: "wf_groups gs b \<Longrightarrow> wf_groups gs (Suc b)"
  unfolding wf_groups_def by (auto simp: less_Suc_eq)

lemma wf_groups_replace:
  assumes "wf_groups gs b" and "allowed_update p f K gs"
  shows "wf_groups (replace_group p f gs) b"
  unfolding replace_group_def
proof (rule wf_groups_map [OF assms(1), where p = p and K = K])
  fix g assume g: "g \<in> set gs"
  then have "wf_group g" using assms(1) by (simp add: wf_groups_def list_all_iff)
  with g assms(2) show "gptr (if gptr g = p then f g else g) = gptr g \<and>
      wf_group (if gptr g = p then f g else g) \<and>
      owned (if gptr g = p then f g else g) \<subseteq> owned g \<union> (if gptr g = p then K else {})"
    by (force simp: allowed_update_def)
next
  fix g assume "g \<in> set gs" "gptr g \<noteq> p"
  with assms(2) show "owned g \<inter> K = {}" by (auto simp: allowed_update_def)
qed

lemma wf_groups_attach:
  assumes "wf_groups (xs @ g # ys) b" and "data_seen g" and "0 \<le> fd"
  shows "wf_groups (xs @ g\<lparr>srt_sock := fd, group_epoll_fd := e\<rparr> # ys) b"
proof -
  have "owned (g\<lparr>srt_sock := fd, group_epoll_fd := e\<rparr>) = owned g" by (simp add: owned_def)
  moreover have "wf_group (g\<lparr>srt_sock := fd, group_epoll_fd := e\<rparr>)"
    using assms by (auto simp: wf_groups_def wf_group_def)
  ultimately show ?thesis using assms(1) unfolding wf_groups_def by auto
qed

lemma distinct_limiter:
  "distinct (map fst es) \<Longrightarrow> distinct (map fst (record_failure addr t es))"
  "distinct (map fst es) \<Longrightarrow> distinct (map fst (limiter_cleanup t es))"
  by (auto simp: record_failure_def limiter_cleanup_def distinct_update distinct_map_filter)

interpretation life: invariant_of vstep wf_view
proof
  show "wf_view b" if "vstep a b" "wf_view a" for a b
    using that
    by (cases rule: vstep.cases)
      (auto simp: wf_view_def distinct_limiter intro: wf_groups_snoc wf_groups_fresh
        wf_groups_replace wf_groups_attach wf_groups_remove)
qed

lemma length_replace_group [simp]: "length (replace_group p f gs) = length gs"
  by (simp add: replace_group_def)

lemma socks_replace_group:
  "keeps_socket p f gs \<Longrightarrow> map srt_sock (replace_group p f gs) = map srt_sock gs"
  by (auto simp: replace_group_def keeps_socket_def)

interpretation group_count: invariant_of vstep balanced_groups
proof
  show "balanced_groups b" if "vstep a b" "balanced_groups a" for a b
    using that by (cases rule: vstep.cases) (auto simp: balanced_groups_def algebra_simps)
qed

interpretation fd_count: invariant_of vstep balanced_fds
proof
  show "balanced_fds b" if "vstep a b" "balanced_fds a" for a b
    using that by (cases rule: vstep.cases) (auto simp: balanced_fds_def socks_replace_group)
qed

section \<open>Refinement\<close>

definition refines :: "receiver \<Rightarrow> receiver \<Rightarrow> bool" where
  "refines s s' \<longleftrightarrow> (wf_receiver s \<longrightarrow> vstep\<^sup>*\<^sup>* (view s) (view s'))"

lemma refines_same: "view s' = view s \<Longrightarrow> refines s s'"
  by (simp add: refines_def)

lemma refines_refl [simp]: "refines s s"
  by (simp add: refines_def)

lemma refines_step: "(wf_receiver s \<Longrightarrow> vstep (view s) (view s')) \<Longrightarrow> refines s s'"
  by (auto simp: refines_def)

lemma refines_wf: "refines s s' \<Longrightarrow> wf_receiver s \<Longrightarrow> wf_receiver s'"
  using life.steps_keep [of "view s" "view s'"] by (simp add: refines_def)

lemma refines_trans [trans]: "refines s s' \<Longrightarrow> refines s' s'' \<Longrightarrow> refines s s''"
  using refines_wf [of s s'] unfolding refines_def by (blast intro: rtranclp_trans)

text \<open>With the invariant at hand for the second leg.\<close>

lemma refines_bind: "refines s s' \<Longrightarrow> (wf_receiver s' \<Longrightarrow> refines s' s'') \<Longrightarrow> refines s s''"
  using refines_wf [of s s'] unfolding refines_def by (blast intro: rtranclp_trans)

lemma refines_wfI: "(wf_receiver s \<Longrightarrow> refines s s') \<Longrightarrow> refines s s'"
  by (auto simp: refines_def)

text \<open>Changes the view does not see.\<close>

fun lifecycle_counter :: "counter \<Rightarrow> bool" where
  "lifecycle_counter GROUP_REGISTRATIONS = True"
| "lifecycle_counter GROUPS_REMOVED_IDLE = True"
| "lifecycle_counter GROUPS_REMOVED_AUTH = True"
| "lifecycle_counter GROUPS_REMOVED_SRT_ERROR = True"
| "lifecycle_counter GROUPS_REMOVED_EVICTED = True"
| "lifecycle_counter _ = False"

fun removal_counter :: "counter \<Rightarrow> bool" where
  "removal_counter c \<longleftrightarrow> lifecycle_counter c \<and> c \<noteq> GROUP_REGISTRATIONS"

fun fd_effect :: "effect \<Rightarrow> bool" where
  "fd_effect (Opened _) = True"
| "fd_effect (Closed _) = True"
| "fd_effect _ = False"

lemma opened_in_append [simp]: "opened_in (es @ es') = opened_in es @ opened_in es'"
  by (simp add: opened_in_def)

lemma closed_in_append [simp]: "closed_in (es @ es') = closed_in es @ closed_in es'"
  by (simp add: closed_in_def)

lemma view_called [simp]: "view (called s) = view s"
  by (simp add: view_def)

lemma view_emit [simp]: "\<not> fd_effect e \<Longrightarrow> view (emit e s) = view s"
  by (cases e) (simp_all add: view_def opened_in_def closed_in_def)

lemma view_emit_fd [simp]:
  "view (emit (Opened fd) s) = (view s)\<lparr>opened := opened (view s) @ [fd]\<rparr>"
  "view (emit (Closed fd) s) = (view s)\<lparr>closed := closed (view s) @ [fd]\<rparr>"
  by (simp_all add: view_def opened_in_def closed_in_def)

lemma view_counted [simp]: "\<not> lifecycle_counter c \<Longrightarrow> view (counted c n s) = view s"
  by (cases c) (simp_all add: view_def removed_count_def)

lemma view_counted_removal:
  "removal_counter c \<Longrightarrow> view (counted c n s) = (view s)\<lparr>removed := removed (view s) + n\<rparr>"
  by (cases c) (simp_all add: view_def removed_count_def algebra_simps)

lemma view_counted_registration:
  "view (counted GROUP_REGISTRATIONS n s) = (view s)\<lparr>registered := registered (view s) + n\<rparr>"
  by (simp add: view_def removed_count_def)

lemma view_upd_group: "view (upd_group p f s) = (view s)\<lparr>table := replace_group p f (table (view s))\<rparr>"
  by (simp add: view_def replace_group_def)

lemma view_fields [simp]:
  "table (view s) = groups s" "fresh (view s) = next_ptr s" "throttle (view s) = limiter s"
  "opened (view s) = opened_in (out s)" "closed (view s) = closed_in (out s)"
  "registered (view s) = g_values s GROUP_REGISTRATIONS"
  "removed (view s) = removed_count (g_values s)"
  by (simp_all add: view_def)

definition in_table :: "nat \<Rightarrow> receiver \<Rightarrow> bool" where
  "in_table p s \<longleftrightarrow> p \<in> gptr ` set (groups s)"

lemma in_tableI: "g \<in> set (groups s) \<Longrightarrow> gptr g = p \<Longrightarrow> in_table p s"
  by (auto simp: in_table_def)

lemma in_table_get: "in_table p s \<longleftrightarrow> (\<exists>g. get_group p s = Some g)"
  using get_group_None [of p s] by (auto simp: in_table_def)

lemma groups_view:
  "view s' = view s \<Longrightarrow> groups s' = groups s"
  "view s' = (view s)\<lparr>opened := fds\<rparr> \<Longrightarrow> groups s' = groups s"
  by (drule arg_cong [where f = table], simp)+

lemma in_table_view: "view s' = view s \<Longrightarrow> in_table p s' = in_table p s"
  using groups_view(1) [of s' s] by (simp add: in_table_def)

lemma in_table_frame [simp]:
  "in_table p (emit e s) = in_table p s" "in_table p (called s) = in_table p s"
  "in_table p (counted c n s) = in_table p s"
  by (simp_all add: in_table_def)

lemma view_groups: "view (s\<lparr>groups := gs\<rparr>) = (view s)\<lparr>table := gs\<rparr>"
  by (simp add: view_def)

lemma view_last_run [simp]: "view (s\<lparr>last_run := t\<rparr>) = view s"
  by (simp add: view_def)

lemma view_get_local_port [simp]: "view (snd (get_local_port os fd s)) = view s"
  by simp

lemma view_write_socket_info_file [simp]: "view (write_socket_info_file os g s) = view s"
  by (simp add: write_socket_info_file_def split_def Let_def)

lemma view_remove_socket_info_file [simp]: "view (remove_socket_info_file os g s) = view s"
  by (simp add: remove_socket_info_file_def split_def Let_def)

lemma view_send_padded [simp]: "view (snd (send_padded os addr buf s)) = view s"
  by (simp add: send_padded_def)

lemma view_read_random: "view (snd (read_random os len good buffer s)) = view s"
proof (induction os len good buffer s rule: read_random.induct)
  case (1 os len good buffer s)
  show ?case
    using "1.IH" by (subst read_random.simps) (auto simp: Let_def)
qed

lemma view_get_random_bytes [simp]: "view (snd (get_random_bytes os len s)) = view s"
  by (simp add: get_random_bytes_def view_read_random)

lemma view_destroy_group:
  "view (destroy_group os g s) =
     (view s)\<lparr>closed := closed (view s) @ (if srt_sock g > 0 then [srt_sock g] else [])\<rparr>"
proof (cases "srt_sock g > 0")
  case True
  then show ?thesis by (simp add: destroy_group_def Let_def del: view_fields)
next
  case False
  then show ?thesis by (simp add: destroy_group_def view_def)
qed

lemma refines_via: "refines s s1 \<Longrightarrow> view s2 = view s1 \<Longrightarrow> refines s s2"
  by (simp add: refines_def)

lemma refines_from: "refines s1 s2 \<Longrightarrow> view s1 = view s \<Longrightarrow> refines s s2"
  by (metis refines_same refines_trans)

lemma refines_transient:
  "view s' = (view s)\<lparr>opened := opened (view s) @ [fd], closed := closed (view s) @ [fd]\<rparr> \<Longrightarrow> refines s s'"
  by (rule refines_step) (metis vstep.transient)

text \<open>Updates in place.\<close>

lemma refines_upd_group:
  assumes "allowed_update p f K (groups s)" and "keeps_socket p f (groups s)"
  shows "refines s (upd_group p f s)"
proof (rule refines_step)
  show "vstep (view s) (view (upd_group p f s))"
    unfolding view_upd_group by (rule vstep.update [of p f K]) (use assms in simp_all)
qed

context group_update
begin

lemma in_table_upd [simp]: "in_table q (upd_group p f s) = in_table q s"
proof -
  have "gptr ` set (map (\<lambda>g. if gptr g = p then f g else g) gs) = gptr ` set gs" for gs
    by (induction gs) (simp_all add: keeps_ptr)
  then show ?thesis unfolding in_table_def upd_group_frame(1) by simp
qed

lemma refines_upd [intro]: "refines s (upd_group p f s)"
  by (rule refines_upd_group [where K = "{}"])
    (simp_all add: allowed_update_def keeps_socket_def keeps_ptr keeps_wf keeps_owned keeps_sock)

end

text \<open>Removal of a group that is in the table.\<close>

lemma refines_remove_group:
  assumes p: "in_table p s" and c: "removal_counter c"
  shows "refines s (registry_remove_group os p (counted c 1 s))"
proof (rule refines_step)
  assume wf: "wf_receiver s"
  then have d: "distinct (map gptr (groups s))" by (simp add: wf_receiver_def wf_groups_def)
  from p obtain g where g: "g \<in> set (groups s)" "gptr g = p" by (auto simp: in_table_def)
  then obtain xs ys where gs: "groups s = xs @ g # ys" by (meson split_list)
  with d g have f: "filter (\<lambda>h. gptr h \<noteq> p) (groups s) = xs @ ys"
    by (metis filter_other_keys)
  from d g gs have "\<forall>h\<in>set xs. gptr h \<noteq> p" "\<forall>h\<in>set ys. gptr h \<noteq> p" by (auto simp: image_iff)
  then have "filter (\<lambda>h. gptr h = p) (groups s) = [g]" using g gs by simp
  with f have "registry_remove_group os p (counted c 1 s) =
      destroy_group os g ((counted c 1 s)\<lparr>groups := xs @ ys\<rparr>)"
    by (simp add: registry_remove_group_def)
  moreover have "vstep (view s) ((view s)\<lparr>table := xs @ ys, removed := removed (view s) + 1,
      closed := closed (view s) @ (if srt_sock g > 0 then [srt_sock g] else [])\<rparr>)"
    by (rule vstep.leave) (simp add: gs)
  moreover have "view (destroy_group os g ((counted c 1 s)\<lparr>groups := xs @ ys\<rparr>)) =
      (view s)\<lparr>table := xs @ ys, removed := removed (view s) + 1,
        closed := closed (view s) @ (if srt_sock g > 0 then [srt_sock g] else [])\<rparr>"
    using c by (intro registry_view.equality)
      (simp_all add: view_destroy_group view_groups view_counted_removal)
  ultimately show "vstep (view s) (view (registry_remove_group os p (counted c 1 s)))"
    by simp
qed

lemma refines_evict: "refines s (snd (evict_oldest_pending_group os s))"
proof (cases "oldest_pending (groups s) None")
  case (Some g)
  then have "in_table (gptr g) s" using oldest_pending_Some [OF Some] by (auto intro: in_tableI)
  with Some show ?thesis
    by (simp add: evict_oldest_pending_group_def refines_remove_group)
qed (simp add: evict_oldest_pending_group_def)

section \<open>The cleanup\<close>

text \<open>The update of one group in the middle of the table.\<close>

lemma replace_group_at:
  assumes "distinct (map gptr (xs @ g # ys))"
  shows "replace_group (gptr g) f (xs @ g # ys) = xs @ f g # ys"
proof -
  from assms have "\<forall>h\<in>set xs. gptr h \<noteq> gptr g" "\<forall>h\<in>set ys. gptr h \<noteq> gptr g"
    by (auto simp: image_iff)
  then show ?thesis by (auto simp: replace_group_def intro: map_idI)
qed

context group_update
begin

lemma vstep_at:
  assumes "distinct (map gptr (xs @ g # ys))"
  shows "vstep (a\<lparr>table := xs @ g # ys\<rparr>) (a\<lparr>table := xs @ f g # ys\<rparr>)"
proof -
  have "vstep (a\<lparr>table := xs @ g # ys\<rparr>)
      (a\<lparr>table := xs @ g # ys\<rparr>\<lparr>table := replace_group (gptr g) f (table (a\<lparr>table := xs @ g # ys\<rparr>))\<rparr>)"
    by (rule vstep.update [where K = "{}"])
      (simp_all add: allowed_update_def keeps_socket_def keeps_ptr keeps_wf keeps_owned keeps_sock)
  then show ?thesis using replace_group_at [OF assms] by simp
qed

end

definition drop_silent :: "time_t \<Rightarrow> connection_group \<Rightarrow> connection_group" where
  "drop_silent t g = g\<lparr>conns := live_conns t g\<rparr>"

lemma wf_group_live: "wf_group g \<Longrightarrow> wf_group (drop_silent t g)"
proof -
  assume g: "wf_group g"
  have "wf_conn (settle_recovery t c) = wf_conn c" for c
    by (simp add: settle_recovery_def wf_conn_def)
  then show ?thesis
    using g by (auto simp: wf_group_def drop_silent_def live_conns_def list_all_iff comp_def
        distinct_map_filter intro: order_trans [OF length_filter_le])
qed

interpretation drop_silent: group_update "drop_silent t" for t
  by unfold_locales
    (simp_all add: wf_group_live, auto simp: drop_silent_def owned_def live_conns_def)

lemma reaped_live: "reaped t g \<longleftrightarrow> live_conns t g = [] \<and>
    created_at g + (if data_seen g then GROUP_TIMEOUT else PENDING_GROUP_TIMEOUT) < t"
  by (auto simp: reaped_def live_conns_def filter_empty_conv)

lemma cleanup_groups_Cons:
  "cleanup_groups os cb t (g # gs) s =
     (let s1 = snd (cleanup_conns cb t (conns g) s); h = drop_silent t g in
      if reaped t g
      then cleanup_groups os cb t gs (destroy_group os h (counted GROUPS_REMOVED_IDLE 1 s1))
      else let s2 = (if length (conns g) \<noteq> length (live_conns t g)
                     then write_socket_info_file os h s1 else s1);
               r = cleanup_groups os cb t gs s2
           in (h # fst r, snd r))"
  using cleanup_conns_fst [of cb t "conns g" s]
  by (simp add: Let_def split_def reaped_live drop_silent_def live_conns_def [symmetric]
      del: length_map)

text \<open>What the cleanup needs of its callback: it sends, and leaves the tables alone.\<close>

locale keepalive_sender =
  fixes cb :: "connection \<Rightarrow> time_t \<Rightarrow> receiver \<Rightarrow> receiver"
  assumes cb_view: "view (cb c t s) = view s"
begin

lemma view_check_recovery: "view (snd (check_recovery t c s)) = view s"
  by (simp add: check_recovery_def)

lemma view_cleanup_conns: "view (snd (cleanup_conns (Some cb) t cs s)) = view s"
  by (induction cs arbitrary: s) (simp_all add: Let_def split_def view_check_recovery cb_view)

lemma cleanup_groups_vsteps:
  assumes "distinct (map gptr (xs @ gs))"
  shows "vstep\<^sup>*\<^sup>* ((view s)\<lparr>table := xs @ gs\<rparr>)
    ((view (snd (cleanup_groups os (Some cb) t gs s)))
       \<lparr>table := xs @ fst (cleanup_groups os (Some cb) t gs s)\<rparr>)"
  using assms
proof (induction gs arbitrary: xs s)
  case (Cons g gs)
  define s1 where "s1 = snd (cleanup_conns (Some cb) t (conns g) s)"
  have v1: "view s1 = view s" by (simp add: s1_def view_cleanup_conns)
  define h where "h = drop_silent t g"
  from Cons.prems have first: "vstep ((view s)\<lparr>table := xs @ g # gs\<rparr>) ((view s)\<lparr>table := xs @ h # gs\<rparr>)"
    unfolding h_def by (rule drop_silent.vstep_at)
  have d: "distinct (map gptr (xs @ gs))" "distinct (map gptr ((xs @ [h]) @ gs))"
    using Cons.prems by (auto simp: h_def drop_silent_def)
  show ?case
  proof (cases "reaped t g")
    case True
    define s2 where "s2 = destroy_group os h (counted GROUPS_REMOVED_IDLE 1 s1)"
    have "vstep ((view s)\<lparr>table := xs @ h # gs\<rparr>) ((view s)\<lparr>table := xs @ h # gs\<rparr>
        \<lparr>table := xs @ gs, removed := removed ((view s)\<lparr>table := xs @ h # gs\<rparr>) + 1,
         closed := closed ((view s)\<lparr>table := xs @ h # gs\<rparr>) @
           (if srt_sock h > 0 then [srt_sock h] else [])\<rparr>)"
      by (rule vstep.leave) simp
    also have "\<dots> = (view s2)\<lparr>table := xs @ gs\<rparr>"
      by (intro registry_view.equality)
        (simp_all add: s2_def view_destroy_group view_counted_removal v1)
    finally have "vstep\<^sup>*\<^sup>* ((view s)\<lparr>table := xs @ g # gs\<rparr>) ((view s2)\<lparr>table := xs @ gs\<rparr>)"
      using first by (meson converse_rtranclp_into_rtranclp r_into_rtranclp)
    from rtranclp_trans [OF this Cons.IH [OF d(1)]] show ?thesis
      unfolding cleanup_groups_Cons using True by (simp add: Let_def s1_def s2_def h_def)
  next
    case False
    define s2 where "s2 = (if length (conns g) \<noteq> length (live_conns t g)
      then write_socket_info_file os h s1 else s1)"
    have "view s2 = view s" by (simp add: s2_def v1)
    with first have "vstep\<^sup>*\<^sup>* ((view s)\<lparr>table := xs @ g # gs\<rparr>) ((view s2)\<lparr>table := (xs @ [h]) @ gs\<rparr>)"
      by auto
    note steps = rtranclp_trans [OF this Cons.IH [OF d(2)]]
    have "cleanup_groups os (Some cb) t (g # gs) s =
        (h # fst (cleanup_groups os (Some cb) t gs s2), snd (cleanup_groups os (Some cb) t gs s2))"
      unfolding cleanup_groups_Cons using False by (simp add: Let_def s1_def s2_def h_def)
    with steps show ?thesis by simp
  qed
qed simp

lemma refines_cleanup: "refines s (cleanup_inactive os (Some cb) t s)"
proof (cases "last_run s + CLEANUP_PERIOD > t \<or> groups s = []")
  case True
  then show ?thesis by (auto simp: cleanup_inactive_def Let_def refines_same)
next
  case False
  define r where "r = cleanup_groups os (Some cb) t (groups s) (s\<lparr>last_run := t\<rparr>)"
  have "cleanup_inactive os (Some cb) t s = (snd r)\<lparr>groups := fst r\<rparr>"
    using False by (simp add: cleanup_inactive_def Let_def split_def r_def)
  moreover have "vstep\<^sup>*\<^sup>* (view s) ((view (snd r))\<lparr>table := fst r\<rparr>)" if "wf_receiver s"
  proof -
    have "distinct (map gptr ([] @ groups s))" using that by (simp add: wf_receiver_def wf_groups_def)
    from cleanup_groups_vsteps [OF this, of "s\<lparr>last_run := t\<rparr>" os t] show ?thesis
      by (simp add: r_def view_def)
  qed
  ultimately show ?thesis by (simp add: refines_def view_groups)
qed

end

lemma vstep_fresh: "vstep\<^sup>*\<^sup>* a b \<Longrightarrow> fresh a \<le> fresh b"
proof (induction rule: rtranclp_induct)
  case (step b c)
  from step(2) have "fresh b \<le> fresh c" by cases simp_all
  with step.IH show ?case by simp
qed simp

lemma refines_next_ptr: "refines s s' \<Longrightarrow> wf_receiver s \<Longrightarrow> next_ptr s \<le> next_ptr s'"
  unfolding refines_def using vstep_fresh by fastforce

end
