(* ===== verification/Srt_Handler.thy ===== *)
theory Srt_Handler
  imports Lifecycle
begin

text \<open>
  The side towards the SRT server (\<open>protocol/srt_handler.cpp\<close>): the socket of a group, the
  forwarding of client packets, and the packets that come back. A removed group is destroyed when the
  handler returns, that is when the last reference to it goes.
\<close>

section \<open>Operations\<close>

text \<open>A classifier that nothing calls.\<close>
definition is_srt_handshake :: "byte list \<Rightarrow> int \<Rightarrow> bool" where
  "is_srt_handshake pkt n \<longleftrightarrow> (if n < 16 then False else pkt ! 0 = 0x80 \<and> pkt ! 1 = 0x00)"

definition kForwardDropLogIntervalMs :: u64
  where [const_defs]: "kForwardDropLogIntervalMs = 1000"

definition log_forward_drop :: "os \<Rightarrow> receiver \<Rightarrow> receiver" where
  "log_forward_drop os s =
     (let s = s\<lparr>dropped_since_log := dropped_since_log s + 1\<rparr>
      in case os_ms os (tick s) of
           None \<Rightarrow> called s
         | Some now_ms \<Rightarrow>
             let s = called s in
             if last_log_ms s \<noteq> 0 \<and> now_ms - last_log_ms s < kForwardDropLogIntervalMs then s
             else (emit (Logged_Drops (dropped_since_log s)) s)
                    \<lparr>dropped_since_log := 0, last_log_ms := now_ms\<rparr>)"

definition remove_group :: "os \<Rightarrow> nat \<Rightarrow> counter \<Rightarrow> receiver \<Rightarrow> receiver" where
  "remove_group os p reason s = registry_remove_group os p (counted reason 1 s)"

definition connect_srt :: "os \<Rightarrow> int \<Rightarrow> receiver \<Rightarrow> int \<times> receiver" where
  "connect_srt os sock s =
     (if ss_family (srt_addr s) = AF_INET then (os_connect os (tick s) sock, called s)
      else if ss_family (srt_addr s) = AF_INET6 then (os_connect os (tick s) sock, called s)
      else (-1, s))"

text \<open>
  What \<open>ensure_group_socket\<close> does to a socket it opened, up to its registration with epoll for
  the group \<open>p\<close>: buffer sizes, non-blocking mode, connection. Each failure leaves in the same way.
\<close>

definition prepare_socket :: "os \<Rightarrow> nat \<Rightarrow> int \<Rightarrow> receiver \<Rightarrow> bool \<times> receiver" where
  "prepare_socket os p sock s =
     (let r = os_setsockopt os (tick s) sock; s = called s in
      if r \<noteq> 0 then (False, s)
      else let r = os_setsockopt os (tick s) sock; s = called s in
      if r \<noteq> 0 then (False, s)
      else let flags = os_fcntl os (tick s) sock; s = called s in
      if flags = -1 then (False, s)
      else let r = os_fcntl os (tick s) sock; s = called s in
      if r = -1 then (False, s)
      else let (ret, s) = connect_srt os sock s in
      if ret \<noteq> 0 then (False, s)
      else let (local_port, s) = get_local_port os sock s;
               r = os_epoll_ctl os (tick s) sock; s = called s in
      if r \<noteq> 0 then (False, s)
      else (True, emit (Epoll_Added sock p) s))"

definition attach_socket :: "int \<Rightarrow> int \<Rightarrow> connection_group \<Rightarrow> connection_group" where
  "attach_socket sock efd g = (set_srt_socket sock g)\<lparr>group_epoll_fd := efd\<rparr>"

definition ensure_group_socket :: "os \<Rightarrow> connection_group \<Rightarrow> receiver \<Rightarrow> bool \<times> receiver" where
  "ensure_group_socket os g s =
     (let p = gptr g in
      if srt_sock g \<ge> 0 then (True, s)
      else let sock = os_socket os (tick s); s = called s in
      if sock < 0 then (False, remove_group os p GROUPS_REMOVED_SRT_ERROR s)
      else case prepare_socket os p sock (emit (Opened sock) s) of
        (False, s) \<Rightarrow> (False, remove_group os p GROUPS_REMOVED_SRT_ERROR (emit (Closed sock) (called s)))
      | (True, s) \<Rightarrow>
          let s = upd_group p (attach_socket sock (epoll_fd s)) s
          in (True, write_socket_info_file os (attach_socket sock (epoll_fd s) g) s))"

definition forward_to_srt_server :: "os \<Rightarrow> nat \<Rightarrow> byte list \<Rightarrow> receiver \<Rightarrow> bool \<times> receiver" where
  "forward_to_srt_server os p buffer s =
     (case get_group p s of
        None \<Rightarrow> (False, s)
      | Some g \<Rightarrow>
          (case ensure_group_socket os g s of
             (False, s) \<Rightarrow> (False, s)
           | (True, s) \<Rightarrow>
               (case get_group p s of
                  None \<Rightarrow> (False, s)
                | Some g \<Rightarrow>
                    let (ret, err) = os_send os (tick s) (srt_sock g) buffer;
                        s = emit (Sent_Srt (srt_sock g) buffer) (called s)
                    in if ret = int (length buffer)
                       then (True, counted FORWARDED_BYTES (of_nat (length buffer))
                                     (counted FORWARDED_PACKETS 1 s))
                       else if ret < 0 \<and> is_transient_forward_error err
                       then (True, log_forward_drop os (counted FORWARD_DROPPED 1 s))
                       else (False, remove_group os p GROUPS_REMOVED_SRT_ERROR
                                      (counted FORWARD_ERRORS 1 s)))))"

text \<open>\<open>recv\<close> on the socket of a group: \<open>-1\<close> on failure, at most \<open>MTU\<close> bytes otherwise.\<close>

definition recv_srt :: "os \<Rightarrow> int \<Rightarrow> receiver \<Rightarrow> int \<times> byte list \<times> receiver" where
  "recv_srt os sock s =
     (case os_recv os (tick s) sock of
        None \<Rightarrow> (-1, [], called s)
      | Some data \<Rightarrow> let buf = take MTU data in (int (length buf), buf, called s))"

definition broadcast :: "os \<Rightarrow> connection_group \<Rightarrow> byte list \<Rightarrow> receiver \<Rightarrow> receiver" where
  "broadcast os g buf s =
     (let msgs = map (\<lambda>c. (address c, buf)) (take MAX_CONNS_PER_GROUP (conns g));
          sent = os_sendmmsg os (tick s) msgs;
          s = emit (Sent_Many msgs) (called s)
      in if sent < 0 then counted SEND_ERR_DOWNSTREAM (of_nat (length msgs)) s
         else if nat sent < length msgs
         then counted SEND_ERR_DOWNSTREAM (of_nat (length msgs - nat sent)) s
         else s)"

definition send_downstream :: "os \<Rightarrow> connection_group \<Rightarrow> byte list \<Rightarrow> receiver \<Rightarrow> receiver" where
  "send_downstream os g buf s =
     (let (ret, s) = send_padded os (last_addr g) buf s
      in if ret \<noteq> int (length buf) then counted SEND_ERR_DOWNSTREAM 1 s else s)"

definition record_auth_failure :: "os \<Rightarrow> connection_group \<Rightarrow> receiver \<Rightarrow> receiver" where
  "record_auth_failure os g s =
     (let now = (case os_seconds os (tick s) of None \<Rightarrow> 0 | Some t \<Rightarrow> t);
          s = counted AUTH_FAILURES 1 (called s)
      in s\<lparr>limiter := record_failure (last_addr g) now (limiter s)\<rparr>)"

text \<open>The end of a packet: the group goes if the packet told of a failed authentication.\<close>

definition end_failed_auth :: "os \<Rightarrow> nat \<Rightarrow> bool \<Rightarrow> receiver \<Rightarrow> receiver" where
  "end_failed_auth os p failed_auth s =
     (if failed_auth then remove_group os p GROUPS_REMOVED_AUTH s else s)"

definition handle_srt_packet :: "os \<Rightarrow> connection_group \<Rightarrow> byte list \<Rightarrow> receiver \<Rightarrow> receiver" where
  "handle_srt_packet os g buf s =
     (let n = int (length buf); p = gptr g;
          s = (if is_srt_ack buf n then upd_group p mark_established s else s);
          g = (if is_srt_ack buf n then mark_established g else g);
          failed_auth = (is_srt_handshake_reject buf n \<or> (is_srt_shutdown buf n \<and> \<not> established g));
          s = (if failed_auth then record_auth_failure os g s else s)
      in if is_srt_ack buf n \<or> is_srt_nak buf n
         then if conns g = [] then s else end_failed_auth os p failed_auth (broadcast os g buf s)
         else end_failed_auth os p failed_auth (send_downstream os g buf s))"

definition handle_srt_data :: "os \<Rightarrow> nat \<Rightarrow> receiver \<Rightarrow> receiver" where
  "handle_srt_data os p s =
     (case get_group p s of
        None \<Rightarrow> s
      | Some g \<Rightarrow>
          (case recv_srt os (srt_sock g) s of (n, buf, s) \<Rightarrow>
             if n < SRT_MIN_LEN then remove_group os p GROUPS_REMOVED_SRT_ERROR s
             else handle_srt_packet os g buf
                    (counted SRT_BYTES_RECEIVED (word_of_int n) (counted SRT_PACKETS_RECEIVED 1 s))))"

section \<open>Refinement of the group life cycle\<close>

interpretation mark_established: group_update mark_established
  by unfold_locales (auto simp: mark_established_def wf_group_def owned_def)

interpretation mark_data_seen: group_update mark_data_seen
  by unfold_locales (auto simp: mark_data_seen_def wf_group_def owned_def)

lemma view_drop_log [simp]:
  "view (s\<lparr>dropped_since_log := d\<rparr>) = view s" "view (s\<lparr>last_log_ms := t\<rparr>) = view s"
  by (simp_all add: view_def)

lemma view_log_forward_drop [simp]: "view (log_forward_drop os s) = view s"
  by (simp add: log_forward_drop_def Let_def split: option.split)

lemma refines_drop_group:
  "in_table p s \<Longrightarrow> removal_counter c \<Longrightarrow> refines s (remove_group os p c s)"
  unfolding remove_group_def by (rule refines_remove_group)

lemma remove_group_fields [simp]:
  "groups (remove_group os p c s) = filter (\<lambda>g. gptr g \<noteq> p) (groups s)"
  "limiter (remove_group os p c s) = limiter s"
  "next_ptr (remove_group os p c s) = next_ptr s"
  by (simp_all add: remove_group_def)

lemma view_prepare_socket [simp]: "view (snd (prepare_socket os p sock s)) = view s"
  by (simp add: prepare_socket_def connect_srt_def Let_def split_def)

lemma groups_prepare_socket [simp]: "groups (snd (prepare_socket os p sock s)) = groups s"
  by (rule groups_view(1)) simp

lemma table_then_opened:
  "(a :: registry_view)\<lparr>opened := fds, table := gs\<rparr> = a\<lparr>table := gs, opened := fds\<rparr>"
  by simp

lemma refines_attach:
  assumes g: "g \<in> set (groups s)" "srt_sock g = -1" "data_seen g" and fd: "0 \<le> fd"
    and s': "view s' = (view s)\<lparr>opened := opened (view s) @ [fd]\<rparr>"
  shows "refines s (upd_group (gptr g) (attach_socket fd e) s')"
proof (rule refines_step)
  assume wf: "wf_receiver s"
  obtain xs ys where gs: "groups s = xs @ g # ys" using g(1) by (meson split_list)
  have "replace_group (gptr g) (attach_socket fd e) (groups s) = xs @ attach_socket fd e g # ys"
    unfolding gs by (rule replace_group_at) (use wf gs in \<open>simp add: wf_receiver_def wf_groups_def\<close>)
  moreover have "groups s' = groups s"
    using s' by (rule groups_view(2))
  ultimately show "vstep (view s) (view (upd_group (gptr g) (attach_socket fd e) s'))"
    unfolding view_upd_group using vstep.attach [of "view s" xs g ys fd e] g fd s' gs
    by (simp add: attach_socket_def set_srt_socket_def table_then_opened)
qed

lemma refines_ensure_group_socket:
  assumes g: "g \<in> set (groups s)" "data_seen g"
  shows "refines s (snd (ensure_group_socket os g s))"
proof (cases "srt_sock g \<ge> 0 \<or> os_socket os (tick s) < 0")
  case True
  have "refines s (remove_group os (gptr g) GROUPS_REMOVED_SRT_ERROR (called s))"
    by (rule refines_trans [OF refines_same refines_drop_group]) (use g in \<open>auto intro: in_tableI\<close>)
  with True show ?thesis by (auto simp: ensure_group_socket_def Let_def)
next
  case False
  define sock where "sock = os_socket os (tick s)"
  obtain ok s1 where s1: "prepare_socket os (gptr g) sock (emit (Opened sock) (called s)) = (ok, s1)"
    by fastforce
  have v: "view s1 = (view s)\<lparr>opened := opened (view s) @ [sock]\<rparr>"
    using view_prepare_socket [of os "gptr g" sock "emit (Opened sock) (called s)"]
    unfolding s1 by simp
  then have gs: "groups s1 = groups s" by (rule groups_view(2))
  show ?thesis
  proof (cases ok)
    case True
    have "refines s (upd_group (gptr g) (attach_socket sock (epoll_fd s1)) s1)" if "wf_receiver s"
    proof (rule refines_attach [OF g(1) _ g(2) _ v])
      show "srt_sock g = -1" using False wf_group_in [OF that g(1)] by (auto simp: wf_group_def)
      show "0 \<le> sock" using False by (simp add: sock_def)
    qed
    then have "refines s (upd_group (gptr g) (attach_socket sock (epoll_fd s1)) s1)"
      by (rule refines_wfI)
    then show ?thesis
      using False True s1
      by (auto simp: ensure_group_socket_def Let_def sock_def refines_def)
  next
    case ok: False
    have "refines s (emit (Closed sock) (called s1))"
      by (rule refines_transient [of _ _ sock]) (simp add: v)
    also have "refines \<dots> (remove_group os (gptr g) GROUPS_REMOVED_SRT_ERROR (emit (Closed sock) (called s1)))"
      by (rule refines_drop_group) (use g gs in \<open>auto simp: in_table_def\<close>)
    finally show ?thesis
      using False ok s1 by (auto simp: ensure_group_socket_def Let_def sock_def)
  qed
qed


lemma epoll_fd_prepare_socket: "epoll_fd (snd (prepare_socket os p sock s)) = epoll_fd s"
  by (simp add: prepare_socket_def connect_srt_def Let_def split_def)

lemma ensure_group_socket_True:
  assumes "ensure_group_socket os g s = (True, s')"
  shows "(0 \<le> srt_sock g \<and> s' = s) \<or> (srt_sock g < 0 \<and> 0 \<le> os_socket os (tick s) \<and>
    groups s' = replace_group (gptr g) (attach_socket (os_socket os (tick s)) (epoll_fd s)) (groups s))"
  using assms epoll_fd_prepare_socket [of os "gptr g" "os_socket os (tick s)"
      "emit (Opened (os_socket os (tick s))) (called s)"] groups_prepare_socket [of os "gptr g" "os_socket os (tick s)"
      "emit (Opened (os_socket os (tick s))) (called s)"]
  by (auto simp: ensure_group_socket_def Let_def replace_group_def not_less
      write_socket_info_file_core [THEN same_core_groups]
      split: if_splits prod.splits bool.splits simp del: groups_prepare_socket)

lemma ensure_group_socket_False:
  assumes "ensure_group_socket os g s = (False, s')"
  shows "groups s' = filter (\<lambda>h. gptr h \<noteq> gptr g) (groups s)"
  using assms groups_prepare_socket [of os "gptr g" "os_socket os (tick s)"
      "emit (Opened (os_socket os (tick s))) (called s)"]
  by (auto simp: ensure_group_socket_def Let_def
      split: if_splits prod.splits bool.splits simp del: groups_prepare_socket)

text \<open>After the socket is ensured the group is there, with a socket and otherwise unchanged.\<close>

definition with_socket :: "connection_group \<Rightarrow> connection_group \<Rightarrow> bool" where
  "with_socket g h \<longleftrightarrow> 0 \<le> srt_sock h \<and>
     h = g\<lparr>srt_sock := srt_sock h, group_epoll_fd := group_epoll_fd h\<rparr>"

lemma with_socket_refl: "0 \<le> srt_sock g \<Longrightarrow> with_socket g g"
  by (simp add: with_socket_def)

lemma with_socket_attach: "0 \<le> fd \<Longrightarrow> with_socket g (attach_socket fd e g)"
  by (simp add: with_socket_def attach_socket_def set_srt_socket_def)

lemma gptr_attach_socket [simp]: "gptr (attach_socket fd e g) = gptr g"
  by (simp add: attach_socket_def set_srt_socket_def)

lemma filter_replace_group:
  "(\<And>g. gptr (f g) = gptr g) \<Longrightarrow>
     filter (\<lambda>h. gptr h \<noteq> p) (replace_group p f gs) = filter (\<lambda>h. gptr h \<noteq> p) gs"
  by (induction gs) (auto simp: replace_group_def)

lemma get_group_replace:
  assumes "groups s' = replace_group p f (groups s)" and "\<And>g. gptr (f g) = gptr g"
  shows "get_group p s' = map_option f (get_group p s)"
proof -
  have "get_group p s' = get_group p (upd_group p f s)"
    using assms(1) by (simp add: get_group_def replace_group_def)
  then show ?thesis using get_group_upd [of f p p s] assms(2) by simp
qed

lemma ensure_get_group:
  assumes "ensure_group_socket os g s = (True, s')" and g: "get_group p s = Some g"
  obtains h where "get_group p s' = Some h" "with_socket g h"
    "filter (\<lambda>h. gptr h \<noteq> p) (groups s') = filter (\<lambda>h. gptr h \<noteq> p) (groups s)"
    "0 \<le> srt_sock g \<longrightarrow> h = g \<and> s' = s"
proof -
  have p: "gptr g = p" using get_group_Some [OF g] by simp
  from ensure_group_socket_True [OF assms(1)] consider
    "0 \<le> srt_sock g" "s' = s"
    | sock efd where "srt_sock g < 0" "0 \<le> sock"
      "groups s' = replace_group p (attach_socket sock efd) (groups s)"
    using p by auto
  then show thesis
  proof cases
    case 1
    then show thesis using that [OF _ with_socket_refl] g by simp
  next
    case 2
    have "get_group p s' = Some (attach_socket sock efd g)"
      using get_group_replace [OF 2(3)] g by simp
    then show thesis
      by (rule that) (use 2 in \<open>simp_all add: with_socket_attach filter_replace_group\<close>)
  qed
qed

lemma get_group_filter: "get_group p s' = None" if "groups s' = filter (\<lambda>h. gptr h \<noteq> p) (groups s)"
  using that by (auto simp: get_group_None)

definition send_ok :: "int \<Rightarrow> int \<Rightarrow> byte list \<Rightarrow> bool" where
  "send_ok ret err buffer \<longleftrightarrow>
     ret = int (length buffer) \<or> ret < 0 \<and> (err = EAGAIN \<or> err = ENOBUFS \<or> err = EINTR)"

lemma forward_cases:
  assumes g: "get_group p s = Some g" and fwd: "forward_to_srt_server os p buffer s = (ok, s')"
  obtains (no_socket) "\<not> ok" "ensure_group_socket os g s = (False, s')"
  | (sent) h s1 ret err where "ok" "ensure_group_socket os g s = (True, s1)" "get_group p s1 = Some h"
      "os_send os (tick s1) (srt_sock h) buffer = (ret, err)" "send_ok ret err buffer"
      "view s' = view s1"
  | (failed) h s1 s2 ret err where "\<not> ok" "ensure_group_socket os g s = (True, s1)" "get_group p s1 = Some h"
      "os_send os (tick s1) (srt_sock h) buffer = (ret, err)" "\<not> send_ok ret err buffer"
      "view s2 = view s1" "s' = remove_group os p GROUPS_REMOVED_SRT_ERROR s2"
proof (cases "fst (ensure_group_socket os g s)")
  case False
  then obtain s1 where s1: "ensure_group_socket os g s = (False, s1)"
    by (cases "ensure_group_socket os g s") auto
  with g fwd have "\<not> ok" "s1 = s'" by (auto simp: forward_to_srt_server_def)
  with s1 show thesis using no_socket by blast
next
  case True
  then obtain s1 where s1: "ensure_group_socket os g s = (True, s1)"
    by (cases "ensure_group_socket os g s") auto
  from ensure_get_group [OF s1 g] obtain h where h: "get_group p s1 = Some h" by metis
  obtain ret err where r: "os_send os (tick s1) (srt_sock h) buffer = (ret, err)" by fastforce
  define s2 where "s2 = emit (Sent_Srt (srt_sock h) buffer) (called s1)"
  have "send_ok ret err buffer \<longleftrightarrow> ret = int (length buffer) \<or> ret < 0 \<and> is_transient_forward_error err"
    by (auto simp: send_ok_def is_transient_forward_error_def)
  then have res: "(ok, s') = (if ret = int (length buffer)
        then (True, counted FORWARDED_BYTES (of_nat (length buffer)) (counted FORWARDED_PACKETS 1 s2))
      else if send_ok ret err buffer then (True, log_forward_drop os (counted FORWARD_DROPPED 1 s2))
      else (False, remove_group os p GROUPS_REMOVED_SRT_ERROR (counted FORWARD_ERRORS 1 s2)))"
    using g fwd s1 h r by (auto simp: forward_to_srt_server_def Let_def s2_def)
  have v: "view s2 = view s1" by (simp add: s2_def)
  show thesis
  proof (cases "send_ok ret err buffer")
    case True
    with res v have "ok" "view s' = view s1" by (auto split: if_splits)
    then show thesis using sent [OF _ s1 h r True] by blast
  next
    case False
    moreover from False have "ret \<noteq> int (length buffer)" by (auto simp: send_ok_def)
    ultimately have "\<not> ok" "s' = remove_group os p GROUPS_REMOVED_SRT_ERROR (counted FORWARD_ERRORS 1 s2)"
      using res by auto
    then show thesis using failed [OF _ s1 h r False, of "counted FORWARD_ERRORS 1 s2"] v by simp
  qed
qed

lemma forward_outcome:
  assumes "get_group p s = Some g"
  shows "case forward_to_srt_server os p buffer s of (ok, s') \<Rightarrow>
      (if ok then \<exists>h. get_group p s' = Some h \<and> with_socket g h else get_group p s' = None) \<and>
      filter (\<lambda>h. gptr h \<noteq> p) (groups s') = filter (\<lambda>h. gptr h \<noteq> p) (groups s) \<and>
      (0 \<le> srt_sock g \<longrightarrow>
        ok = (case os_send os (tick s) (srt_sock g) buffer of (ret, err) \<Rightarrow> send_ok ret err buffer))"
proof (cases "forward_to_srt_server os p buffer s")
  case (Pair ok s')
  have p: "gptr g = p" using get_group_Some [OF assms] by simp
  from assms Pair show ?thesis
  proof (cases rule: forward_cases)
    case no_socket
    then have "\<not> 0 \<le> srt_sock g" by (auto simp: ensure_group_socket_def)
    then show ?thesis
      using Pair p no_socket(1) ensure_group_socket_False [OF no_socket(2)]
      by (simp add: get_group_filter)
  next
    case (sent h s1 ret err)
    obtain h' where h': "get_group p s1 = Some h'" "with_socket g h'"
      "filter (\<lambda>h. gptr h \<noteq> p) (groups s1) = filter (\<lambda>h. gptr h \<noteq> p) (groups s)"
      "0 \<le> srt_sock g \<longrightarrow> h' = g \<and> s1 = s"
      by (rule ensure_get_group [OF sent(2) assms])
    have "groups s' = groups s1" using sent(6) by (rule groups_view(1))
    moreover from this have "get_group p s' = Some h" using sent(3) by (simp add: get_group_def)
    ultimately show ?thesis
      using Pair sent(1,3-5) h' by (cases "0 \<le> srt_sock g") simp_all
  next
    case (failed h s1 s2 ret err)
    obtain h' where h': "get_group p s1 = Some h'" "with_socket g h'"
      "filter (\<lambda>h. gptr h \<noteq> p) (groups s1) = filter (\<lambda>h. gptr h \<noteq> p) (groups s)"
      "0 \<le> srt_sock g \<longrightarrow> h' = g \<and> s1 = s"
      by (rule ensure_get_group [OF failed(2) assms])
    have "groups s' = filter (\<lambda>h. gptr h \<noteq> p) (groups s1)"
      using groups_view(1) [OF failed(6)] failed(7) by simp
    moreover from this have "get_group p s' = None" by (rule get_group_filter)
    ultimately show ?thesis
      using Pair failed(1,3-5) h' by (cases "0 \<le> srt_sock g") simp_all
  qed
qed

text \<open>C34. Forwarding a client packet. The result is false exactly when the group was removed;
  otherwise the group is still there, with a socket and else unchanged. A send that the kernel refuses
  for lack of buffer space, or that a signal interrupts, keeps the group; every other failure
  and every short send ends it. No other group is touched.\<close>

theorem forward_false_iff_group_removed:
  assumes "get_group p s = Some g"
  shows "case forward_to_srt_server os p buffer s of (ok, s') \<Rightarrow>
      (if ok then \<exists>h. get_group p s' = Some h \<and> with_socket g h else get_group p s' = None) \<and>
      filter (\<lambda>h. gptr h \<noteq> p) (groups s') = filter (\<lambda>h. gptr h \<noteq> p) (groups s) \<and>
      (0 \<le> srt_sock g \<longrightarrow>
        ok = (case os_send os (tick s) (srt_sock g) buffer of (ret, err) \<Rightarrow> send_ok ret err buffer))"
  using assms by (rule forward_outcome)

lemma refines_forward:
  assumes "\<And>g. get_group p s = Some g \<Longrightarrow> data_seen g"
  shows "refines s (snd (forward_to_srt_server os p buffer s))"
proof (cases "get_group p s")
  case None
  then show ?thesis by (simp add: forward_to_srt_server_def)
next
  case (Some g)
  obtain ok s' where fwd: "forward_to_srt_server os p buffer s = (ok, s')" by fastforce
  have g: "g \<in> set (groups s)" "data_seen g" using get_group_Some [OF Some] assms Some by auto
  note ens = refines_ensure_group_socket [OF g, of os]
  from Some fwd show ?thesis
  proof (cases rule: forward_cases)
    case no_socket
    with ens fwd show ?thesis by simp
  next
    case (sent h s1 ret err)
    with ens fwd show ?thesis by (simp add: refines_def)
  next
    case (failed h s1 s2 ret err)
    have "in_table p s2" using failed(3) in_table_view [OF failed(6)] by (simp add: in_table_get)
    then have "refines s2 s'" unfolding failed(7) by (rule refines_drop_group) simp
    moreover have "refines s s2" using ens failed by (simp add: refines_def)
    ultimately show ?thesis using fwd refines_trans by simp
  qed
qed

section \<open>Packets from the SRT server\<close>

lemma grows_remove_group: "grows s (remove_group os p c s)"
  using grows_fold_destroy [of "(counted c 1 s)\<lparr>groups := filter (\<lambda>g. gptr g \<noteq> p) (groups s)\<rparr>"]
  by (simp add: grows_def remove_group_def registry_remove_group_def)

lemma view_broadcast [simp]: "view (broadcast os g buf s) = view s"
  unfolding broadcast_def Let_def by (simp del: length_map length_take)

lemma view_send_downstream [simp]: "view (send_downstream os g buf s) = view s"
  by (simp add: send_downstream_def Let_def split_def)

lemma view_recv_srt [simp]: "view (snd (snd (recv_srt os sock s))) = view s"
  by (simp add: recv_srt_def Let_def split: option.split)

lemma groups_record_auth_failure [simp]:
  "groups (record_auth_failure os g s) = groups s"
  "in_table p (record_auth_failure os g s) = in_table p s"
  by (simp_all add: record_auth_failure_def Let_def in_table_def)

lemma refines_record_auth_failure: "refines s (record_auth_failure os g s)"
proof (rule refines_step)
  define now where "now = (case os_seconds os (tick s) of None \<Rightarrow> 0 | Some t \<Rightarrow> t)"
  have "view (record_auth_failure os g s) =
      (view s)\<lparr>throttle := record_failure (last_addr g) now (throttle (view s))\<rparr>"
    by (simp add: record_auth_failure_def Let_def now_def) (simp add: view_def removed_count_def)
  then show "vstep (view s) (view (record_auth_failure os g s))" 
    using vstep.penalise [of "view s" "last_addr g" now] by simp
qed

lemma refines_end_failed_auth:
  assumes "in_table p s" and v: "view s' = view s"
  shows "refines s (end_failed_auth os p b s')"
proof -
  have "in_table p s'" using assms in_table_view [OF v] by simp
  then have "refines s' (end_failed_auth os p b s')"
    by (simp add: end_failed_auth_def refines_drop_group)
  with refines_same [OF v] show ?thesis by (rule refines_trans)
qed

lemma refines_handle_srt_packet:
  assumes p: "in_table (gptr g) s"
  shows "refines s (handle_srt_packet os g buf s)"
proof -
  define ack where "ack = is_srt_ack buf (int (length buf))"
  define s1 where "s1 = (if ack then upd_group (gptr g) mark_established s else s)"
  define g1 where "g1 = (if ack then mark_established g else g)"
  define failed where "failed = (is_srt_handshake_reject buf (int (length buf)) \<or>
    is_srt_shutdown buf (int (length buf)) \<and> \<not> established g1)"
  define s2 where "s2 = (if failed then record_auth_failure os g1 s1 else s1)"
  have "refines s s1" by (auto simp: s1_def)
  also have "refines s1 s2" by (simp add: s2_def refines_record_auth_failure)
  finally have r: "refines s s2" .
  have "in_table (gptr g) s2"
    using p by (simp add: s2_def s1_def)
  then have "refines s2 (end_failed_auth os (gptr g) failed s3)" if "view s3 = view s2" for s3
    using that by (rule refines_end_failed_auth)
  then have "refines s (end_failed_auth os (gptr g) failed s3)" if "view s3 = view s2" for s3
    using r that refines_trans by blast
  with r show ?thesis
    unfolding handle_srt_packet_def Let_def ack_def [symmetric] s1_def [symmetric] g1_def [symmetric]
      failed_def [symmetric] s2_def [symmetric] by simp
qed

lemma refines_handle_srt_data: "refines s (handle_srt_data os p s)"
proof (cases "get_group p s")
  case None
  then show ?thesis by (simp add: handle_srt_data_def)
next
  case (Some g)
  then have p: "gptr g = p" "in_table p s" using get_group_Some [OF Some] by (auto simp: in_table_get)
  obtain n buf s1 where r: "recv_srt os (srt_sock g) s = (n, buf, s1)" by (metis prod_cases3)
  have v: "view s1 = view s" using view_recv_srt [of os "srt_sock g" s] by (simp add: r)
  then have p1: "in_table p s1" using p in_table_view by blast
  let ?s2 = "counted SRT_BYTES_RECEIVED (word_of_int n) (counted SRT_PACKETS_RECEIVED 1 s1)"
  have "refines ?s2 (handle_srt_packet os g buf ?s2)"
    by (rule refines_handle_srt_packet) (use p p1 in simp)
  moreover have "refines s1 (remove_group os p GROUPS_REMOVED_SRT_ERROR s1)"
    using p1 by (simp add: refines_drop_group)
  moreover have "refines s s1" "refines s ?s2" by (simp_all add: refines_same v)
  ultimately show ?thesis
    using Some r by (auto simp: handle_srt_data_def intro: refines_trans)
qed

text \<open>An ACK or NAK from the SRT server goes out to every connection of its group, in one
  \<open>sendmmsg\<close> call that carries the packet unchanged once per connection, and nothing else
  is sent. The group stays; an ACK marks it established.\<close>

lemma ack_nak_reach_every_connection:
  assumes "wf_receiver s" and g: "get_group p s = Some g" and "conns g \<noteq> []"
    and recv: "os_recv os (tick s) (srt_sock g) = Some buf"
    and len: "16 \<le> length buf" "length buf \<le> MTU"
    and ack_nak: "is_srt_ack buf (int (length buf)) \<or> is_srt_nak buf (int (length buf))"
  shows "out (handle_srt_data os p s) =
        out s @ [Sent_Many (map (\<lambda>c. (address c, buf)) (conns g))] \<and>
      groups (handle_srt_data os p s) =
        (if is_srt_ack buf (int (length buf)) then replace_group p mark_established (groups s)
         else groups s)"
proof -
  define n where "n = int (length buf)"
  have r: "recv_srt os (srt_sock g) s = (n, buf, called s)" using recv len by (simp add: recv_srt_def n_def)
  have no_auth: "\<not> is_srt_handshake_reject buf n" "\<not> is_srt_shutdown buf n"
    using ack_nak by (auto simp: is_srt_handshake_reject_def is_srt_shutdown_def is_srt_ack_def
        is_srt_nak_def n_def const_defs)
  have all: "take MAX_CONNS_PER_GROUP (conns g) = conns g"
    using wf_group_in [OF assms(1)] get_group_Some [OF g] by (simp add: wf_group_def)
  have p: "gptr g = p" using get_group_Some [OF g] by simp
  define s1 where "s1 = counted SRT_BYTES_RECEIVED (word_of_int n) (counted SRT_PACKETS_RECEIVED 1 (called s))"
  have "handle_srt_data os p s = handle_srt_packet os g buf s1"
    using g r len by (simp add: handle_srt_data_def n_def s1_def const_defs)
  also have "\<dots> = broadcast os (if is_srt_ack buf n then mark_established g else g) buf
      (if is_srt_ack buf n then upd_group p mark_established s1 else s1)"
    using no_auth ack_nak assms(3) p
    by (simp add: handle_srt_packet_def n_def end_failed_auth_def mark_established_def)
  finally have h: "handle_srt_data os p s = \<dots>" .
  show ?thesis
    unfolding h broadcast_def Let_def
    by (simp add: all n_def s1_def replace_group_def mark_established_def del: length_map length_take)
qed

text \<open>A packet of the server that is no ACK and no NAK.\<close>

lemma other_packet:
  fixes s :: receiver
  assumes g: "get_group p s = Some g"
    and recv: "os_recv os (tick s) (srt_sock g) = Some buf"
    and len: "16 \<le> length buf" "length buf \<le> MTU"
    and other: "\<not> is_srt_ack buf (int (length buf))" "\<not> is_srt_nak buf (int (length buf))"
  defines "s1 \<equiv> counted SRT_BYTES_RECEIVED (word_of_int (int (length buf))) (counted SRT_PACKETS_RECEIVED 1 (called s))"
    and "failed \<equiv> is_srt_handshake_reject buf (int (length buf)) \<or> is_srt_shutdown buf (int (length buf)) \<and> \<not> established g"
  shows "handle_srt_data os p s = end_failed_auth os p failed
      (send_downstream os g buf (if failed then record_auth_failure os g s1 else s1))"
proof -
  have r: "recv_srt os (srt_sock g) s = (int (length buf), buf, called s)" using recv len by (simp add: recv_srt_def)
  have p: "gptr g = p" using get_group_Some [OF g] by simp
  show ?thesis
    using g r len other p
    by (simp add: handle_srt_data_def handle_srt_packet_def Let_def s1_def failed_def const_defs)
qed

lemma send_downstream_frame:
  "out (send_downstream os g buf s) = out s @ [Sent_To (last_addr g) (pad32 buf)]"
  "groups (send_downstream os g buf s) = groups s" "limiter (send_downstream os g buf s) = limiter s"
  by (simp_all add: send_downstream_def send_padded_def)

lemma end_failed_auth_out: "\<exists>es. out (end_failed_auth os p b s) = out s @ es"
  using grows_remove_group by (auto simp: end_failed_auth_def grows_def)

lemma other_packet_relayed:
  assumes "get_group p s = Some g" "os_recv os (tick s) (srt_sock g) = Some buf" "16 \<le> length buf" "length buf \<le> MTU"
    and "\<not> is_srt_ack buf (int (length buf))" "\<not> is_srt_nak buf (int (length buf))"
  shows "take (Suc (length (out s))) (out (handle_srt_data os p s)) = out s @ [Sent_To (last_addr g) (pad32 buf)]"
proof -
  define s1 where "s1 = counted SRT_BYTES_RECEIVED (word_of_int (int (length buf))) (counted SRT_PACKETS_RECEIVED 1 (called s))"
  define s2 where "s2 b = (if b then record_auth_failure os g s1 else s1)" for b
  obtain b where h: "handle_srt_data os p s = end_failed_auth os p b (send_downstream os g buf (s2 b))"
    using other_packet [OF assms] unfolding s1_def [symmetric] s2_def by blast
  have "out (s2 b) = out s" by (simp add: s2_def s1_def record_auth_failure_def Let_def)
  then show ?thesis
    using end_failed_auth_out [of os p b "send_downstream os g buf (s2 b)"] by (auto simp: h send_downstream_frame)
qed

text \<open>C35. Any other packet from the SRT server is relayed to the client address seen last, padded to
  32 bytes. If it rejects the handshake, or shuts the session down before an ACK established it,
  a failure is recorded for that client at the current time and the group is removed; in
  every other case the group table and the rate limiter stay as they are.\<close>

theorem rejection_penalises_and_removes:
  assumes g: "get_group p s = Some g"
    and recv: "os_recv os (tick s) (srt_sock g) = Some buf"
    and len: "16 \<le> length buf" "length buf \<le> MTU"
    and other: "\<not> is_srt_ack buf (int (length buf))" "\<not> is_srt_nak buf (int (length buf))"
    and clock: "os_seconds os (Suc (tick s)) = Some now"
  shows "let failed = is_srt_handshake_reject buf (int (length buf)) \<or>
               is_srt_shutdown buf (int (length buf)) \<and> \<not> established g;
             s' = handle_srt_data os p s
         in take (Suc (length (out s))) (out s') = out s @ [Sent_To (last_addr g) (pad32 buf)] \<and>
            groups s' = (if failed then filter (\<lambda>h. gptr h \<noteq> p) (groups s) else groups s) \<and>
            limiter s' = (if failed then record_failure (last_addr g) now (limiter s) else limiter s)"
proof -
  define s1 where "s1 = counted SRT_BYTES_RECEIVED (word_of_int (int (length buf))) (counted SRT_PACKETS_RECEIVED 1 (called s))"
  define failed where "failed = (is_srt_handshake_reject buf (int (length buf)) \<or>
    is_srt_shutdown buf (int (length buf)) \<and> \<not> established g)"
  define s2 where "s2 = (if failed then record_auth_failure os g s1 else s1)"
  have h: "handle_srt_data os p s = end_failed_auth os p failed (send_downstream os g buf s2)"
    using other_packet [OF g recv len other] by (simp add: s2_def s1_def failed_def)
  have s2: "groups s2 = groups s"
    "limiter s2 = (if failed then record_failure (last_addr g) now (limiter s) else limiter s)"
    using clock by (simp_all add: s2_def s1_def record_auth_failure_def Let_def)
  have "groups (handle_srt_data os p s) = (if failed then filter (\<lambda>h. gptr h \<noteq> p) (groups s) else groups s)"
    "limiter (handle_srt_data os p s) = limiter s2"
    by (simp_all add: h end_failed_auth_def send_downstream_frame s2(1))
  with other_packet_relayed [OF g recv len other] show ?thesis
    unfolding Let_def failed_def [symmetric] by (simp add: s2(2))
qed

end
