(* ===== verification/Double.thy ===== *)
theory Double
  imports Complex_Main Prelude
begin

text \<open>
  The \<open>double\<close> arithmetic of the quality evaluator. A finite IEEE binary64 value is the
  rational number it denotes, and every arithmetic operation rounds the exact result to the
  nearest value with a 53 bit significand, ties to the even significand. The exponent is not
  bounded: the magnitudes the evaluator produces lie between about \<open>2 powi -80\<close> and
  \<open>2 ^ 90\<close>, far from the subnormal and overflow ranges. Positive infinity, which one quotient can
  produce, is \<open>dbl_inf\<close>, a value above every finite double.
\<close>

section \<open>Definitions\<close>

type_synonym double = rat

text \<open>Position of the leading one bit.\<close>
function ilog2 :: "int \<Rightarrow> nat" where
  "ilog2 n = (if n < 2 then 0 else Suc (ilog2 (n div 2)))"
  by pat_completeness auto
termination
  by (relation "measure nat") auto

declare ilog2.simps [simp del]

definition clog2 :: "int \<Rightarrow> nat" where
  "clog2 n = (if n \<le> 1 then 0 else Suc (ilog2 (n - 1)))"

text \<open>The binary exponent of a positive rational.\<close>
definition expo :: "rat \<Rightarrow> int" where
  "expo x = (if 1 \<le> x then int (ilog2 \<lfloor>x\<rfloor>) else - int (clog2 \<lceil>1 / x\<rceil>))"

text \<open>Nearest integer, ties to even.\<close>
definition rne :: "rat \<Rightarrow> int" where
  "rne x = (let f = \<lfloor>x\<rfloor>; d = x - of_int f in
     if d < 1 / 2 then f else if d > 1 / 2 then f + 1 else if even f then f else f + 1)"

definition ulp :: "rat \<Rightarrow> rat" where
  "ulp x = 2 powi (expo x - 52)"

definition rnd :: "rat \<Rightarrow> double" where
  "rnd x = (if x = 0 then 0
            else if 0 < x then of_int (rne (x / ulp x)) * ulp x
            else - (of_int (rne (- x / ulp (- x))) * ulp (- x)))"

definition fadd :: "double \<Rightarrow> double \<Rightarrow> double" where "fadd x y = rnd (x + y)"
definition fsub :: "double \<Rightarrow> double \<Rightarrow> double" where "fsub x y = rnd (x - y)"
definition fmul :: "double \<Rightarrow> double \<Rightarrow> double" where "fmul x y = rnd (x * y)"
definition fdiv :: "double \<Rightarrow> double \<Rightarrow> double" where "fdiv x y = rnd (x / y)"

text \<open>Conversion of an integer, as \<open>static_cast<double>\<close> and the usual arithmetic conversions do.\<close>
definition dbl_of_int :: "int \<Rightarrow> double" where "dbl_of_int i = rnd (of_int i)"

text \<open>Conversion to \<open>uint64_t\<close> truncates towards zero.\<close>
definition u64_of_dbl :: "double \<Rightarrow> u64" where "u64_of_dbl x = word_of_int \<lfloor>x\<rfloor>"

definition dbl_inf :: double where "dbl_inf = 2 ^ 1024"

text \<open>Integer square root by binary digits, and the correctly rounded square root.\<close>
function isqrt :: "int \<Rightarrow> int" where
  "isqrt n = (if n \<le> 0 then 0
              else let r = 2 * isqrt (n div 4) in if (r + 1) * (r + 1) \<le> n then r + 1 else r)"
  by pat_completeness auto
termination
  by (relation "measure nat") auto

declare isqrt.simps [simp del]

definition fsqrt :: "double \<Rightarrow> double" where
  "fsqrt x = (if x \<le> 0 then 0
     else let q = expo x div 2 - 52;
              y = x / 2 powi (2 * q);
              m = isqrt \<lfloor>y\<rfloor>;
              h = (of_int m + 1 / 2) * (of_int m + 1 / 2);
              r = (if y < h then m else if h < y then m + 1 else if even m then m else m + 1)
          in of_int r * 2 powi q)"

section \<open>The exponent\<close>

lemma ilog2_bounds: "0 < n \<Longrightarrow> 2 ^ ilog2 n \<le> n \<and> n < 2 ^ (ilog2 n + 1)"
proof (induction n rule: ilog2.induct)
  case (1 n)
  show ?case
  proof (cases "n < 2")
    case True
    with 1 show ?thesis by (simp add: ilog2.simps [of n])
  next
    case False
    with 1 have "2 ^ ilog2 (n div 2) \<le> n div 2" "n div 2 < 2 ^ (ilog2 (n div 2) + 1)" by auto
    then have "2 * 2 ^ ilog2 (n div 2) \<le> n" "n < 2 * 2 ^ (ilog2 (n div 2) + 1)" by linarith+
    with False show ?thesis by (simp add: ilog2.simps [of n])
  qed
qed

lemma clog2_bounds: "1 < n \<Longrightarrow> n \<le> 2 ^ clog2 n \<and> 2 ^ (clog2 n - 1) \<le> n - 1"
  using ilog2_bounds [of "n - 1"] by (auto simp: clog2_def)

lemma expo_bounds:
  assumes "0 < x"
  shows "2 powi expo x \<le> x" and "x < 2 powi (expo x + 1)"
proof -
  have "2 powi expo x \<le> x \<and> x < 2 powi (expo x + 1)"
  proof (cases "1 \<le> x")
    case True
    define n where "n = \<lfloor>x\<rfloor>"
    from True have "0 < n" by (simp add: n_def)
    have "of_int n \<le> x" "x < of_int (n + 1)" unfolding n_def by linarith+
    moreover from \<open>0 < n\<close> have "2 ^ ilog2 n \<le> n" "n + 1 \<le> 2 ^ (ilog2 n + 1)"
      using ilog2_bounds [of n] by auto
    then have "(2::rat) ^ ilog2 n \<le> of_int n" "of_int (n + 1) \<le> (2::rat) ^ (ilog2 n + 1)"
      by (metis of_int_le_iff of_int_numeral of_int_power)+
    ultimately have "2 ^ ilog2 n \<le> x" "x < 2 ^ (ilog2 n + 1)" by linarith+
    with True show ?thesis
      by (simp add: expo_def n_def [symmetric] power_int_def nat_add_distrib)
  next
    case False
    define n where "n = \<lceil>1 / x\<rceil>"
    from False assms have "1 < 1 / x" by simp
    then have "1 < n" unfolding n_def by linarith
    have "1 / x \<le> of_int n" "of_int (n - 1) < 1 / x" unfolding n_def by linarith+
    moreover from \<open>1 < n\<close> have "n \<le> 2 ^ clog2 n" "2 ^ (clog2 n - 1) \<le> n - 1" "0 < clog2 n"
      using clog2_bounds [of n] by (auto simp: clog2_def)
    then have "of_int n \<le> (2::rat) ^ clog2 n" "(2::rat) ^ (clog2 n - 1) \<le> of_int (n - 1)"
      by (metis of_int_le_iff of_int_numeral of_int_power)+
    ultimately have "1 / x \<le> 2 ^ clog2 n" "2 ^ (clog2 n - 1) < 1 / x" by linarith+
    with assms have "1 / 2 ^ clog2 n \<le> x" "x < 1 / 2 ^ (clog2 n - 1)"
      by (simp_all add: field_simps)
    moreover have "nat (int (clog2 n) - 1) = clog2 n - 1" by simp
    ultimately show ?thesis using False \<open>0 < clog2 n\<close>
      by (auto simp: expo_def n_def power_int_def nat_add_distrib field_simps of_nat_diff)
  qed
  then show "2 powi expo x \<le> x" and "x < 2 powi (expo x + 1)" by auto
qed

lemma expo_le:
  assumes "0 < x" and "x \<le> y"
  shows "expo x \<le> expo y"
proof (rule ccontr)
  assume "\<not> expo x \<le> expo y"
  then have "(2::rat) powi (expo y + 1) \<le> 2 powi expo x"
    by (intro power_int_increasing) auto
  with expo_bounds [of x] expo_bounds [of y] assms show False by simp
qed

lemma expo_unique:
  assumes "2 powi e \<le> x" and "x < 2 powi (e + 1)"
  shows "expo x = e"
proof -
  from assms(1) have "0 < x" by (rule less_le_trans [rotated]) simp
  note b = expo_bounds [OF this]
  have "\<not> expo x + 1 \<le> e"
    using power_int_increasing [of "expo x + 1" e "2::rat"] assms b by fastforce
  moreover have "\<not> e + 1 \<le> expo x"
    using power_int_increasing [of "e + 1" "expo x" "2::rat"] assms b by fastforce
  ultimately show ?thesis by simp
qed

section \<open>Rounding\<close>

lemma rne_of_int [simp]: "rne (of_int i) = i"
  by (simp add: rne_def)

lemma rne_mono: "x \<le> y \<Longrightarrow> rne x \<le> rne y"
proof -
  assume "x \<le> y"
  show ?thesis
  proof (cases "\<lfloor>x\<rfloor> = \<lfloor>y\<rfloor>")
    case True
    with \<open>x \<le> y\<close> show ?thesis by (auto simp: rne_def Let_def)
  next
    case False
    with floor_mono [OF \<open>x \<le> y\<close>] have "\<lfloor>x\<rfloor> + 1 \<le> \<lfloor>y\<rfloor>" by simp
    moreover have "rne x \<le> \<lfloor>x\<rfloor> + 1" "\<lfloor>y\<rfloor> \<le> rne y" by (auto simp: rne_def Let_def)
    ultimately show ?thesis by simp
  qed
qed

lemma rne_error: "\<bar>of_int (rne x) - x\<bar> \<le> 1 / 2"
proof -
  obtain f where f: "f = \<lfloor>x\<rfloor>" by simp
  have "of_int f \<le> x" "x < of_int f + 1" unfolding f by linarith+
  then show ?thesis unfolding rne_def f [symmetric] Let_def by (auto simp: abs_if)
qed

lemma ulp_pos [simp]: "0 < ulp x" "ulp x \<noteq> 0" "0 \<le> ulp x"
  by (simp_all add: ulp_def)

lemma rnd_0 [simp]: "rnd 0 = 0"
  by (simp add: rnd_def)

lemma rnd_minus: "rnd (- x) = - rnd x"
  by (simp add: rnd_def)

lemma significand_bounds:
  assumes "0 < x"
  shows "2 ^ 52 \<le> x / ulp x" and "x / ulp x < 2 ^ 53"
proof -
  have "2 powi expo x = 2 ^ 52 * ulp x" "2 powi (expo x + 1) = 2 ^ 53 * ulp x"
    by (simp_all add: ulp_def power_int_diff power_int_add)
  with expo_bounds [OF assms] show "2 ^ 52 \<le> x / ulp x" "x / ulp x < 2 ^ 53"
    by (simp_all add: field_simps)
qed

text \<open>Rounding a positive number stays within its binade, end points included.\<close>
lemma rnd_binade:
  assumes "0 < x"
  shows "2 powi expo x \<le> rnd x" and "rnd x \<le> 2 powi (expo x + 1)"
proof -
  have eq: "2 powi expo x = 2 ^ 52 * ulp x" "2 powi (expo x + 1) = 2 ^ 53 * ulp x"
    by (simp_all add: ulp_def power_int_diff power_int_add)
  have "rne (of_int (2 ^ 52)) \<le> rne (x / ulp x)" "rne (x / ulp x) \<le> rne (of_int (2 ^ 53))"
    using significand_bounds [OF assms] by (intro rne_mono; simp)+
  then have "of_int (2 ^ 52) \<le> (of_int (rne (x / ulp x)) :: rat)"
    "(of_int (rne (x / ulp x)) :: rat) \<le> of_int (2 ^ 53)"
    unfolding rne_of_int of_int_le_iff by blast+
  with assms show "2 powi expo x \<le> rnd x" "rnd x \<le> 2 powi (expo x + 1)"
    by (simp_all add: eq rnd_def)
qed

lemma rnd_pos [simp]: "0 < x \<Longrightarrow> 0 < rnd x"
  using rnd_binade(1) [of x] by (rule less_le_trans [rotated]) simp_all

lemma rnd_nonneg [simp]: "0 \<le> x \<Longrightarrow> 0 \<le> rnd x"
  by (cases "x = 0") (simp_all add: less_imp_le)

lemma rnd_mono_pos:
  assumes "0 < x" and "x \<le> y"
  shows "rnd x \<le> rnd y"
proof (cases "expo x = expo y")
  case True
  then have "ulp x = ulp y" by (simp add: ulp_def)
  moreover have "rne (x / ulp y) \<le> rne (y / ulp y)"
    using assms by (intro rne_mono) (simp add: divide_right_mono)
  ultimately show ?thesis using assms by (simp add: rnd_def)
next
  case False
  with expo_le [OF assms] have "(2::rat) powi (expo x + 1) \<le> 2 powi expo y"
    by (intro power_int_increasing) auto
  with rnd_binade(2) [of x] rnd_binade(1) [of y] assms show ?thesis by simp
qed

theorem rnd_mono: "x \<le> y \<Longrightarrow> rnd x \<le> rnd y"
proof (cases "0 < x")
  case False
  assume "x \<le> y"
  show ?thesis
  proof (cases "0 < y")
    case True
    with False have "rnd x \<le> 0" "0 \<le> rnd y"
      using rnd_nonneg [of "- x"] rnd_minus [of x] by simp_all
    then show ?thesis by simp
  next
    case False
    then consider "y = 0" | "0 < - y" by force
    then show ?thesis
    proof cases
      case 1
      with \<open>x \<le> y\<close> show ?thesis using rnd_nonneg [of "- x"] rnd_minus [of x] by simp
    next
      case 2
      with \<open>x \<le> y\<close> have "rnd (- y) \<le> rnd (- x)" by (intro rnd_mono_pos) auto
      then show ?thesis by (simp add: rnd_minus)
    qed
  qed
qed (rule rnd_mono_pos)

text \<open>Relative error of at most half a unit in the last place.\<close>
lemma rnd_error: "0 < x \<Longrightarrow> \<bar>rnd x - x\<bar> \<le> ulp x / 2"
proof -
  assume "0 < x"
  have "rnd x - x = (of_int (rne (x / ulp x)) - x / ulp x) * ulp x"
    using \<open>0 < x\<close> ulp_pos [of x] by (simp add: rnd_def field_simps)
  then have "\<bar>rnd x - x\<bar> = \<bar>of_int (rne (x / ulp x)) - x / ulp x\<bar> * ulp x"
    by (simp add: abs_mult)
  also have "\<dots> \<le> 1 / 2 * ulp x"
    by (intro mult_right_mono rne_error) simp
  finally show ?thesis by simp
qed

text \<open>Values with a significand of at most 53 bits are doubles already.\<close>
lemma rnd_exact:
  assumes "0 < m" and "m < 2 ^ 53"
  shows "rnd (of_int m * 2 powi k) = of_int m * 2 powi k"
proof -
  define x :: rat where "x = of_int m * 2 powi k"
  have "0 < x" using assms by (simp add: x_def)
  have "(of_int m :: rat) < of_int (2 ^ 53)"
    using assms(2) by (simp only: of_int_less_iff)
  then have "x < 2 ^ 53 * 2 powi k" by (simp add: x_def)
  also have "\<dots> = 2 powi (k + 53)" by (simp add: power_int_add)
  finally have "(2::rat) powi expo x < 2 powi (k + 53)"
    using expo_bounds(1) [OF \<open>0 < x\<close>] by simp
  then have "expo x < k + 53"
    using power_int_increasing [of "k + 53" "expo x" "2::rat"] by linarith
  then have j: "k = expo x - 52 + int (nat (k - (expo x - 52)))" by simp
  define j where "j = nat (k - (expo x - 52))"
  have k: "k = expo x - 52 + int j" using j by (simp only: j_def)
  have quot: "x / ulp x = of_int (m * 2 ^ j)"
  proof -
    have "(2::rat) powi k = 2 powi (expo x - 52) * 2 powi int j"
      by (subst k) (simp add: power_int_add)
    then have "x = of_int (m * 2 ^ j) * ulp x" by (simp add: x_def ulp_def mult.commute)
    then show ?thesis by (metis nonzero_mult_div_cancel_right ulp_pos(2))
  qed
  have "rnd x = of_int (rne (x / ulp x)) * ulp x" using \<open>0 < x\<close> by (simp add: rnd_def)
  also have "\<dots> = x / ulp x * ulp x" unfolding quot rne_of_int ..
  finally show ?thesis by (simp add: x_def [symmetric])
qed

end
