(* ===== verification/Quality.thy ===== *)
theory Quality
  imports Group Double
begin

text \<open>
  The quality evaluator (\<open>quality/quality_evaluator.cpp\<close>) and the load balancer
  (\<open>quality/load_balancer.cpp\<close>). Floating-point literals are rounded to the nearest double, as the
  compiler does; quantities that are only logged (total bandwidth, percentages) are left out.
\<close>

section \<open>Thresholds of the configuration\<close>

definition MIN_ACCEPTABLE_TOTAL_BANDWIDTH_KBPS :: double
  where [const_defs]: "MIN_ACCEPTABLE_TOTAL_BANDWIDTH_KBPS = 1000"
definition GOOD_CONNECTION_THRESHOLD :: double where [const_defs]: "GOOD_CONNECTION_THRESHOLD = rnd (5/10)"
definition NAK_RATE_CRITICAL :: double where [const_defs]: "NAK_RATE_CRITICAL = rnd (20/100)"
definition NAK_RATE_HIGH :: double where [const_defs]: "NAK_RATE_HIGH = rnd (10/100)"
definition NAK_RATE_MODERATE :: double where [const_defs]: "NAK_RATE_MODERATE = rnd (5/100)"
definition NAK_RATE_LOW :: double where [const_defs]: "NAK_RATE_LOW = rnd (1/100)"
definition WINDOW_UTILIZATION_CONGESTED :: double
  where [const_defs]: "WINDOW_UTILIZATION_CONGESTED = rnd (95/100)"
definition BITRATE_DISCREPANCY_THRESHOLD :: double
  where [const_defs]: "BITRATE_DISCREPANCY_THRESHOLD = rnd (20/100)"

section \<open>Penalty ladders\<close>

definition bandwidth_points_ext :: "double \<Rightarrow> u32" where
  "bandwidth_points_ext ratio =
     (if ratio < rnd (3/10) then 10 else if ratio < rnd (5/10) then 7
      else if ratio < rnd (7/10) then 4 else if ratio < rnd (85/100) then 2 else 0)"

definition bandwidth_points :: "double \<Rightarrow> u32" where
  "bandwidth_points ratio =
     (if ratio < rnd (3/10) then 40 else if ratio < rnd (5/10) then 25
      else if ratio < rnd (7/10) then 15 else if ratio < rnd (85/100) then 5 else 0)"

definition loss_points :: "double \<Rightarrow> u32" where
  "loss_points loss =
     (if loss > rnd (20/100) then 40 else if loss > rnd (10/100) then 20
      else if loss > rnd (5/100) then 10 else if loss > rnd (1/100) then 5 else 0)"

section \<open>Sender telemetry\<close>

text \<open>Sum and count of the non-zero samples, in history order.\<close>
fun rtt_sum :: "u32 list \<Rightarrow> double \<Rightarrow> int \<Rightarrow> double \<times> int" where
  "rtt_sum [] acc count = (acc, count)"
| "rtt_sum (r # rs) acc count =
     (if 0 < r then rtt_sum rs (fadd acc (dbl_of_int (uint r))) (count + 1) else rtt_sum rs acc count)"

fun rtt_variance_sum :: "u32 list \<Rightarrow> double \<Rightarrow> double \<Rightarrow> double" where
  "rtt_variance_sum [] mean acc = acc"
| "rtt_variance_sum (r # rs) mean acc =
     (if 0 < r then let diff = fsub (dbl_of_int (uint r)) mean
                    in rtt_variance_sum rs mean (fadd acc (fmul diff diff))
      else rtt_variance_sum rs mean acc)"

definition calculate_rtt_variance :: "connection_stats \<Rightarrow> double" where
  "calculate_rtt_variance st =
     (let (acc, count) = rtt_sum (rtt_history st) 0 0 in
      if count < 2 then 0
      else let mean = fdiv acc (dbl_of_int count);
               variance_sum = rtt_variance_sum (rtt_history st) mean 0
           in fsqrt (fdiv variance_sum (dbl_of_int count)))"

definition calculate_rtt_error_points :: "connection_stats \<Rightarrow> time_t \<Rightarrow> u32" where
  "calculate_rtt_error_points st current_time =
     (if last_keepalive st = 0 \<or> current_time - last_keepalive st > KEEPALIVE_STALENESS_THRESHOLD
      then 0
      else let points = (if rtt_ms st > RTT_THRESHOLD_CRITICAL then 20
                         else if rtt_ms st > RTT_THRESHOLD_HIGH then 10
                         else if rtt_ms st > RTT_THRESHOLD_MODERATE then 5 else 0)
           in if calculate_rtt_variance st > dbl_of_int (uint RTT_VARIANCE_THRESHOLD)
              then points + 10 else points)"

definition nak_rate_points :: "double \<Rightarrow> u32" where
  "nak_rate_points nak_rate =
     (if nak_rate > NAK_RATE_CRITICAL then 40 else if nak_rate > NAK_RATE_HIGH then 20
      else if nak_rate > NAK_RATE_MODERATE then 10 else if nak_rate > NAK_RATE_LOW then 5 else 0)"

definition calculate_nak_error_points :: "connection_stats \<Rightarrow> u64 \<Rightarrow> u32 \<times> connection_stats" where
  "calculate_nak_error_points st packets_diff =
     (if packets_diff = 0 \<or> sender_nak_count st = 0 then (0, st)
      else let nak_diff = sender_nak_count st - last_sender_nak_count st;
               nak_rate = fdiv (dbl_of_int (uint nak_diff)) (dbl_of_int (uint packets_diff))
           in (nak_rate_points nak_rate, st\<lparr>last_sender_nak_count := sender_nak_count st\<rparr>))"

definition calculate_window_error_points :: "connection_stats \<Rightarrow> u32" where
  "calculate_window_error_points st =
     (if window st \<le> 0 then 0
      else let utilization = fdiv (dbl_of_int (in_flight st)) (dbl_of_int (window st))
           in if utilization > WINDOW_UTILIZATION_CONGESTED then 15 else 0)"

text \<open>Whether \<open>validate_bitrate\<close> logs a discrepancy; it has no other effect.\<close>
definition validate_bitrate :: "connection_stats \<Rightarrow> double \<Rightarrow> bool" where
  "validate_bitrate st receiver_bitrate_bps \<longleftrightarrow>
     (if sender_bitrate_bps st = 0 then False
      else let sender = dbl_of_int (uint (sender_bitrate_bps st));
               ratio = fdiv (\<bar>fsub receiver_bitrate_bps sender\<bar>) sender
           in ratio > BITRATE_DISCREPANCY_THRESHOLD)"

section \<open>One connection\<close>

definition legacy_weight :: "u32 \<Rightarrow> byte" where
  "legacy_weight points =
     (if points \<ge> 40 then WEIGHT_CRITICAL else if points \<ge> 30 then WEIGHT_POOR
      else if points \<ge> 20 then WEIGHT_FAIR else if points \<ge> 10 then WEIGHT_DEGRADED
      else if points \<ge> 5 then WEIGHT_EXCELLENT else WEIGHT_FULL)"

definition evaluate_connection_legacy ::
    "double \<Rightarrow> double \<Rightarrow> connection_stats \<Rightarrow> connection_stats" where
  "evaluate_connection_legacy packet_loss_ratio performance_ratio st =
     (let points = bandwidth_points performance_ratio + loss_points packet_loss_ratio
      in st\<lparr>legacy_error_points := points, legacy_weight_percent := legacy_weight points\<rparr>)"

record quality_metrics =
  qm_bandwidth :: double
  qm_loss :: double
  qm_packets_diff :: u64

text \<open>
  The measurements of the first loop for one connection, with what it adds to the group's
  total bandwidth. The divisor of the loss ratio is a \<open>uint64_t\<close> sum and is zero only when that
  sum wraps around; the quotient is infinite then.
\<close>

definition measure_connection :: "u64 \<Rightarrow> connection \<Rightarrow> quality_metrics \<times> u64" where
  "measure_connection current_ms conn =
     (let st = stats conn;
          time_diff_ms = (if 0 < last_eval_time st then current_ms - last_eval_time st else 0)
      in if 0 < time_diff_ms then
           let bytes_diff = bytes_received st - last_bytes_received st;
               packets_diff = packets_received st - last_packets_received st;
               lost_diff = packets_lost st - last_packets_lost st;
               seconds = fdiv (dbl_of_int (uint time_diff_ms)) 1000;
               bandwidth_bytes_per_sec = fdiv (dbl_of_int (uint bytes_diff)) seconds;
               divisor = packets_diff + ucast lost_diff;
               packet_loss_ratio =
                 (if 0 < packets_diff
                  then if divisor = 0 then dbl_inf
                       else fdiv (dbl_of_int (uint lost_diff)) (dbl_of_int (uint divisor))
                  else 0)
           in (\<lparr>qm_bandwidth = fdiv (fmul bandwidth_bytes_per_sec 8) 1000,
                qm_loss = packet_loss_ratio, qm_packets_diff = packets_diff\<rparr>,
               u64_of_dbl bandwidth_bytes_per_sec)
         else (\<lparr>qm_bandwidth = 0, qm_loss = 0, qm_packets_diff = 0\<rparr>, 0))"

definition compute_median :: "double list \<Rightarrow> double" where
  "compute_median vals =
     (let vs = sort vals; mid = length vs div 2
      in if length vs mod 2 = 0 then fdiv (fadd (vs ! (mid - 1)) (vs ! mid)) 2 else vs ! mid)"

definition median_bandwidth :: "double list \<Rightarrow> double" where
  "median_bandwidth all_bandwidths =
     (let max_kbits = fold max all_bandwidths 0
      in if all_bandwidths \<noteq> [] \<and> 0 < max_kbits then
           let good_threshold = fmul max_kbits GOOD_CONNECTION_THRESHOLD;
               good = filter (\<lambda>bw. good_threshold \<le> bw) all_bandwidths
           in if good \<noteq> [] then compute_median good else compute_median all_bandwidths
         else 0)"

definition min_expected :: "nat \<Rightarrow> double" where
  "min_expected n = max 100 (fdiv MIN_ACCEPTABLE_TOTAL_BANDWIDTH_KBPS (dbl_of_int (int n)))"

definition performance_ratio :: "double \<Rightarrow> double \<Rightarrow> double \<Rightarrow> double" where
  "performance_ratio bw median min_exp =
     (let is_poor = bw < fmul median GOOD_CONNECTION_THRESHOLD;
          expected = max (if is_poor then min_exp else median) min_exp
      in if 0 < expected then fdiv bw expected else 0)"

definition telemetry_points ::
    "time_t \<Rightarrow> u64 \<Rightarrow> connection_stats \<Rightarrow> u32 \<times> connection_stats" where
  "telemetry_points current_time packets_diff st =
     (if has_valid_sender_telemetry st current_time then
        let rtt = calculate_rtt_error_points st current_time;
            (nak, st) = calculate_nak_error_points st packets_diff;
            win = calculate_window_error_points st
        in (rtt + nak + win, st)
      else (0, st))"

definition score_connection ::
    "time_t \<Rightarrow> u64 \<Rightarrow> double \<Rightarrow> double \<Rightarrow> quality_metrics \<Rightarrow> connection \<Rightarrow> connection" where
  "score_connection current_time current_ms median min_exp qm conn =
     (if current_time - connection_start conn < CONNECTION_GRACE_PERIOD then conn
      else
        let st = stats conn;
            ratio = performance_ratio (qm_bandwidth qm) median min_exp;
            bw = (if supports_extended_keepalives st then bandwidth_points_ext ratio
                  else bandwidth_points ratio);
            loss = loss_points (qm_loss qm);
            (tele, st) = telemetry_points current_time (qm_packets_diff qm) st;
            st = st\<lparr>error_points := bw + loss + tele,
                    last_bytes_received := bytes_received st,
                    last_packets_received := packets_received st,
                    last_packets_lost := packets_lost st,
                    last_eval_time := current_ms,
                    nack_count := 0\<rparr>
        in conn\<lparr>stats := evaluate_connection_legacy (qm_loss qm) ratio st\<rparr>)"

section \<open>A group\<close>

text \<open>\<open>current_ms\<close> is the result of \<open>get_ms\<close>: \<open>None\<close> when the clock cannot be read.\<close>

definition evaluate_group :: "u64 option \<Rightarrow> connection_group \<Rightarrow> time_t \<Rightarrow> connection_group" where
  "evaluate_group current_ms g current_time =
     (if conns g = [] \<or> \<not> load_balancing_enabled g then g
      else if last_quality_eval g + CONN_QUALITY_EVAL_PERIOD > current_time then g
      else case current_ms of
        None \<Rightarrow> g\<lparr>total_target_bandwidth := 0\<rparr>
      | Some ms \<Rightarrow>
          let measured = map (measure_connection ms) (conns g);
              bandwidth_info = map fst measured;
              median = median_bandwidth (map qm_bandwidth bandwidth_info);
              min_exp = min_expected (length bandwidth_info)
          in g\<lparr>total_target_bandwidth := sum_list (map snd measured),
               conns := map2 (score_connection current_time ms median min_exp)
                          bandwidth_info (conns g),
               last_quality_eval := current_time\<rparr>)"

section \<open>The load balancer\<close>

definition weight_for :: "u32 \<Rightarrow> byte" where
  "weight_for points =
     (if points \<ge> 40 then WEIGHT_CRITICAL else if points \<ge> 25 then WEIGHT_POOR
      else if points \<ge> 15 then WEIGHT_FAIR else if points \<ge> 10 then WEIGHT_DEGRADED
      else if points \<ge> 5 then WEIGHT_EXCELLENT else WEIGHT_FULL)"

definition adjust_connection_weight :: "connection \<Rightarrow> connection" where
  "adjust_connection_weight conn =
     (let old_weight = weight_percent (stats conn);
          new_weight = weight_for (error_points (stats conn))
      in if new_weight \<noteq> old_weight
         then conn\<lparr>stats := (stats conn)\<lparr>weight_percent := new_weight\<rparr>\<rparr> else conn)"

definition adjust_weights :: "connection_group \<Rightarrow> time_t \<Rightarrow> connection_group" where
  "adjust_weights g current_time =
     (if conns g = [] then g
      else if load_balancing_enabled g \<and> last_load_balance_eval g \<ge> last_quality_eval g then g
      else if \<not> load_balancing_enabled g \<and> last_load_balance_eval g \<noteq> 0 \<and>
              last_load_balance_eval g + CONN_QUALITY_EVAL_PERIOD > current_time then g
      else g\<lparr>last_load_balance_eval := current_time,
             conns := map adjust_connection_weight (conns g)\<rparr>)"

section \<open>Shape of an evaluation\<close>

lemma map2_map_left: "map2 f (map h xs) xs = map (\<lambda>x. f (h x) x) xs"
  by (induction xs) simp_all

text \<open>What an evaluation at \<open>ms\<close> makes of one connection of the group, and when it happens.\<close>

definition scored :: "u64 \<Rightarrow> connection_group \<Rightarrow> time_t \<Rightarrow> connection \<Rightarrow> connection" where
  "scored ms g t c =
     score_connection t ms (median_bandwidth (map (\<lambda>c. qm_bandwidth (fst (measure_connection ms c))) (conns g)))
       (min_expected (length (conns g))) (fst (measure_connection ms c)) c"

definition evaluation_due :: "u64 option \<Rightarrow> connection_group \<Rightarrow> time_t \<Rightarrow> bool" where
  "evaluation_due ms g t \<longleftrightarrow> conns g \<noteq> [] \<and> load_balancing_enabled g \<and>
     last_quality_eval g + CONN_QUALITY_EVAL_PERIOD \<le> t \<and> ms \<noteq> None"

lemma evaluate_group_conns:
  "conns (evaluate_group ms g t) =
     (if evaluation_due ms g t then map (scored (the ms) g t) (conns g) else conns g)"
  by (cases ms) (auto simp: evaluate_group_def evaluation_due_def Let_def map2_map_left scored_def comp_def)

end
