(* ===== verification/Srtla_Handler.thy ===== *)
theory Srtla_Handler
  imports Srt_Handler Quality
begin

text \<open>
  The side towards the clients (\<open>protocol/srtla_handler.cpp\<close>): registration of groups and
  connections, keepalives, acknowledgements, the handling of one datagram and of a batch of them.
  A connection is a position in the vector of its group.
\<close>

section \<open>Registration\<close>

text \<open>A two-byte reply; the handlers ignore whether these error replies could be sent.\<close>

definition reply :: "os \<Rightarrow> sockaddr_storage \<Rightarrow> u16 \<Rightarrow> receiver \<Rightarrow> receiver" where
  "reply os addr typ s = snd (send_padded os addr (put_be16 typ) s)"

definition refuse :: "os \<Rightarrow> sockaddr_storage \<Rightarrow> u16 \<Rightarrow> counter \<Rightarrow> receiver \<Rightarrow> receiver" where
  "refuse os addr typ c s = counted c 1 (reply os addr typ s)"

definition reg2_packet :: "connection_group \<Rightarrow> byte list" where
  "reg2_packet g = put_be16 SRTLA_TYPE_REG2 @ gid g"

definition register_group ::
    "os \<Rightarrow> sockaddr_storage \<Rightarrow> byte list \<Rightarrow> time_t \<Rightarrow> receiver \<Rightarrow> failure + receiver" where
  "register_group os addr buffer ts s =
     (if is_blocked addr ts (limiter s)
      then Inr (refuse os addr SRTLA_TYPE_REG_ERR GROUP_REG_THROTTLED s)
      else
        let (room, s) = (if length (groups s) \<ge> MAX_GROUPS then evict_oldest_pending_group os s
                         else (True, s))
        in if \<not> room then Inr (refuse os addr SRTLA_TYPE_REG_ERR GROUP_REG_TABLE_FULL s)
        else if find_by_address addr (groups s) \<noteq> None
        then Inr (refuse os addr SRTLA_TYPE_REG_ERR GROUP_REG_DUP_ADDR s)
        else
          (case get_random_bytes os (SRTLA_ID_LEN div 2) s of
             (None, s) \<Rightarrow> Inl Runtime_Error
           | (Some random_bytes, s) \<Rightarrow>
               let g = set_last_address addr (new_group (next_ptr s) (drop 2 buffer) random_bytes ts);
                   s = s\<lparr>next_ptr := Suc (next_ptr s)\<rparr>;
                   (ret, s) = send_padded os addr (reg2_packet g) s
               in if ret \<noteq> SRTLA_TYPE_REG2_LEN then Inr (counted GROUP_REG_SEND_ERROR 1 s)
                  else Inr (counted GROUP_REGISTRATIONS 1 (add_group g s))))"

definition register_connection ::
    "os \<Rightarrow> sockaddr_storage \<Rightarrow> byte list \<Rightarrow> time_t \<Rightarrow> receiver \<Rightarrow> receiver" where
  "register_connection os addr buffer ts s =
     (case find_group_by_id (drop 2 buffer) (groups s) of
        None \<Rightarrow> refuse os addr SRTLA_TYPE_REG_NGP CONN_REG_NO_GROUP s
      | Some g \<Rightarrow>
          let found = find_by_address addr (groups s);
              mismatch = (case found of None \<Rightarrow> False | Some (p, _) \<Rightarrow> p \<noteq> gptr g);
              already_registered = (case found of Some (_, Some _) \<Rightarrow> True | _ \<Rightarrow> False)
          in if mismatch
             then refuse os addr SRTLA_TYPE_REG_ERR CONN_REG_GROUP_MISMATCH s
             else if \<not> already_registered \<and> length (conns g) \<ge> MAX_CONNS_PER_GROUP
             then refuse os addr SRTLA_TYPE_REG_ERR CONN_REG_MAX_CONNS s
             else
               let (ret, s) = send_padded os addr (put_be16 SRTLA_TYPE_REG3) s
               in if ret \<noteq> 2 then counted CONN_REG_SEND_ERROR 1 s
                  else
                    let join = (if already_registered then (\<lambda>g. g)
                                else add_connection (new_connection addr ts));
                        s = upd_group (gptr g) join s;
                        s = write_socket_info_file os (join g) s;
                        s = upd_group (gptr g) (set_last_address addr) s
                    in counted CONN_REGISTRATIONS 1 s)"

section \<open>Acknowledgements\<close>

definition get_conn :: "nat \<Rightarrow> nat \<Rightarrow> receiver \<Rightarrow> connection option" where
  "get_conn p i s =
     (case get_group p s of
        None \<Rightarrow> None
      | Some g \<Rightarrow> if i < length (conns g) then Some (conns g ! i) else None)"

definition upd_conn :: "nat \<Rightarrow> nat \<Rightarrow> (connection \<Rightarrow> connection) \<Rightarrow> receiver \<Rightarrow> receiver" where
  "upd_conn p i f s = upd_group p (map_conn i f) s"

definition log_packet :: "int \<Rightarrow> connection \<Rightarrow> connection" where
  "log_packet sn conn =
     (let next_idx = recv_idx conn + 1;
          next_idx = (if next_idx \<le> 0 \<or> next_idx > int RECV_ACK_INT then 1 else next_idx)
      in conn\<lparr>recv_idx := next_idx,
              recv_log := (recv_log conn)[nat (next_idx - 1) := word_of_int sn]\<rparr>)"

definition srtla_ack_pkt :: "u32 list \<Rightarrow> byte list" where
  "srtla_ack_pkt acks = put_be32 (push_bit 16 (ucast SRTLA_TYPE_ACK)) @ concat (map put_be32 acks)"

definition reset_log :: "connection \<Rightarrow> connection" where
  "reset_log conn = conn\<lparr>recv_idx := 0\<rparr>"

definition register_packet :: "os \<Rightarrow> nat \<Rightarrow> nat \<Rightarrow> int \<Rightarrow> receiver \<Rightarrow> receiver" where
  "register_packet os p i sn s =
     (let s = upd_conn p i (log_packet sn) s
      in case get_conn p i s of
           None \<Rightarrow> s
         | Some conn \<Rightarrow>
             if recv_idx conn = int RECV_ACK_INT then
               let ack = srtla_ack_pkt (recv_log conn);
                   (ret, s) = send_padded os (address conn) ack s;
                   s = (if ret \<noteq> int (length ack) then counted SEND_ERR_ACK 1 s else s)
               in upd_conn p i reset_log s
             else s)"

section \<open>Keepalives\<close>

text \<open>\<open>send_keepalive\<close>, the callback of the cleanup.\<close>

definition send_keepalive :: "os \<Rightarrow> connection \<Rightarrow> time_t \<Rightarrow> receiver \<Rightarrow> receiver" where
  "send_keepalive os conn ts s =
     (let (ret, s) = send_padded os (address conn) (put_be16 SRTLA_TYPE_KEEPALIVE) s
      in if ret \<noteq> 2 then counted SEND_ERR_KEEPALIVE 1 s else s)"

definition update_rtt_history :: "u32 \<Rightarrow> connection_stats \<Rightarrow> connection_stats" where
  "update_rtt_history rtt st =
     st\<lparr>rtt_history := (rtt_history st)[unat (rtt_history_idx st) := rtt],
        rtt_history_idx := word_of_int ((uint (rtt_history_idx st) + 1) mod int RTT_HISTORY_SIZE),
        rtt_ms := rtt\<rparr>"

definition update_connection_telemetry ::
    "connection_info \<Rightarrow> time_t \<Rightarrow> connection_stats \<Rightarrow> connection_stats" where
  "update_connection_telemetry info current_time st =
     (update_rtt_history (ci_rtt_ms info) (st\<lparr>sender_supports_extended_keepalives := True\<rparr>))
       \<lparr>window := ci_window info, in_flight := ci_in_flight info,
        sender_nak_count := ci_nak_count info,
        sender_bitrate_bps := ci_bitrate_bytes_per_sec info,
        last_keepalive := current_time\<rparr>"

definition handle_keepalive ::
    "os \<Rightarrow> nat \<Rightarrow> nat \<Rightarrow> sockaddr_storage \<Rightarrow> byte list \<Rightarrow> receiver \<Rightarrow> receiver" where
  "handle_keepalive os p i addr buffer s =
     (let current_time = (case os_seconds os (tick s) of None \<Rightarrow> 0 | Some t \<Rightarrow> t);
          s = called s;
          s = (case parse_keepalive_conn_info buffer (int (length buffer)) of
                 None \<Rightarrow> s
               | Some info \<Rightarrow>
                   upd_conn p i (upd_stats (update_connection_telemetry info current_time)) s);
          (ret, s) = send_padded os addr buffer s
      in if ret \<noteq> int (length buffer) then counted SEND_ERR_KEEPALIVE 1 s else s)"

section \<open>One datagram\<close>

definition is_srt_nak_packet :: "byte list \<Rightarrow> int \<Rightarrow> bool" where
  "is_srt_nak_packet pkt n \<longleftrightarrow>
     (if n < srt_header_size then False else get_srt_type pkt n = SRT_TYPE_NAK)"

definition is_duplicate_nak ::
    "os \<Rightarrow> connection_group \<Rightarrow> byte list \<Rightarrow> receiver \<Rightarrow> bool \<times> nak_cache \<times> receiver" where
  "is_duplicate_nak os g buffer s =
     (let h = hash_nak_payload buffer (int (length buffer)) 128;
          now_ms = (case os_ms os (tick s) of None \<Rightarrow> 0 | Some t \<Rightarrow> t);
          (accept, cache) = should_accept_nak (nak_seen_hash g) h now_ms
      in (\<not> accept, cache, called s))"

text \<open>The accounting of a NAK that came from the client; true when it is suppressed.\<close>

definition note_nak :: "os \<Rightarrow> nat \<Rightarrow> nat \<Rightarrow> byte list \<Rightarrow> time_t \<Rightarrow> receiver \<Rightarrow> bool \<times> receiver" where
  "note_nak os p i buf ts s =
     (case get_group p s of
        None \<Rightarrow> (False, s)
      | Some g \<Rightarrow>
          let (duplicate, cache, s) = is_duplicate_nak os g buf s;
              s = upd_group p (\<lambda>g. g\<lparr>nak_seen_hash := cache\<rparr>) s
          in if duplicate then (True, counted NAKS_SUPPRESSED 1 s)
             else
               let s = upd_conn p i (upd_stats (on_nak_detected 1)) (counted NAKS_RECEIVED 1 s)
               in case (get_group p s, get_conn p i s) of
                    (Some g, Some conn) \<Rightarrow>
                      if nack_count (stats conn) > 5 \<and> last_quality_eval g + 1 < ts
                      then (False, upd_group p (\<lambda>g. evaluate_group (os_ms os (tick s)) g ts) (called s))
                      else (False, s)
                  | _ \<Rightarrow> (False, s))"

definition touch :: "time_t \<Rightarrow> connection \<Rightarrow> connection" where
  "touch ts conn =
     (if recovery_start conn = 0 \<and> conn_timed_out conn ts
      then conn\<lparr>last_rcvd := ts, recovery_start := ts\<rparr> else conn\<lparr>last_rcvd := ts\<rparr>)"

definition touch_connection :: "nat \<Rightarrow> nat \<Rightarrow> time_t \<Rightarrow> receiver \<Rightarrow> receiver" where
  "touch_connection p i ts s =
     (case get_conn p i s of
        None \<Rightarrow> s
      | Some conn \<Rightarrow>
          let s = upd_conn p i (touch ts) s
          in if recovery_start conn = 0 \<and> conn_timed_out conn ts
             then counted RECOVERY_STARTED 1 s else s)"

definition register_and_forward :: "os \<Rightarrow> nat \<Rightarrow> nat \<Rightarrow> byte list \<Rightarrow> receiver \<Rightarrow> receiver" where
  "register_and_forward os p i buf s =
     (let sn = get_srt_sn buf (int (length buf));
          s = (if sn \<ge> 0 then register_packet os p i sn s else s)
      in snd (forward_to_srt_server os p buf s))"

definition process_srt_packet ::
    "os \<Rightarrow> nat \<Rightarrow> nat \<Rightarrow> byte list \<Rightarrow> sockaddr_storage \<Rightarrow> time_t \<Rightarrow> receiver \<Rightarrow> receiver" where
  "process_srt_packet os p i buf addr ts s =
     (let s = upd_group p mark_data_seen s;
          s = upd_group p (set_last_address addr) s;
          s = upd_conn p i (upd_stats (on_packet_received (length buf))) s
      in if is_srt_nak_packet buf (int (length buf))
         then (case note_nak os p i buf ts s of
                 (True, s) \<Rightarrow> s
               | (False, s) \<Rightarrow> register_and_forward os p i buf s)
         else register_and_forward os p i buf s)"

definition process_known_packet ::
    "os \<Rightarrow> nat \<Rightarrow> nat \<Rightarrow> byte list \<Rightarrow> sockaddr_storage \<Rightarrow> time_t \<Rightarrow> receiver \<Rightarrow> receiver" where
  "process_known_packet os p i buf addr ts s =
     (let n = int (length buf); s = touch_connection p i ts s
      in if is_srtla_keepalive buf n then handle_keepalive os p i addr buf s
         else if n < SRT_MIN_LEN then s
         else process_srt_packet os p i buf addr ts s)"

definition process_single_packet ::
    "os \<Rightarrow> byte list \<Rightarrow> sockaddr_storage \<Rightarrow> time_t \<Rightarrow> receiver \<Rightarrow> failure + receiver" where
  "process_single_packet os buf addr ts s =
     (let n = int (length buf) in
      if is_srtla_reg1 buf n then register_group os addr buf ts s
      else if is_srtla_reg2 buf n then Inr (register_connection os addr buf ts s)
      else case find_by_address addr (groups s) of
             Some (p, Some i) \<Rightarrow> Inr (process_known_packet os p i buf addr ts s)
           | _ \<Rightarrow> Inr s)"

section \<open>A batch\<close>

definition RECV_BATCH_SIZE :: nat where [const_defs]: "RECV_BATCH_SIZE = 64"

fun process_batch ::
    "os \<Rightarrow> time_t \<Rightarrow> (sockaddr_storage \<times> byte list) list \<Rightarrow> receiver \<Rightarrow> failure + receiver" where
  "process_batch os ts [] s = Inr s"
| "process_batch os ts ((addr, data) # msgs) s =
     (let buf = take MTU data in
      if 0 < length buf then
        let s = counted PACKETS_RECEIVED 1 s;
            s = counted BYTES_RECEIVED (of_nat (length buf)) s
        in case process_single_packet os buf addr ts s of
             Inl e \<Rightarrow> Inl e
           | Inr s \<Rightarrow> process_batch os ts msgs s
      else process_batch os ts msgs s)"

definition process_packets :: "os \<Rightarrow> time_t \<Rightarrow> receiver \<Rightarrow> failure + receiver" where
  "process_packets os ts s =
     (case os_recvmmsg os (tick s) of
        None \<Rightarrow> Inr (called s)
      | Some msgs \<Rightarrow>
          process_batch os ts (take RECV_BATCH_SIZE msgs) (counted RECV_BATCHES 1 (called s)))"

section \<open>Updates of connections and groups\<close>

interpretation log_packet: conn_update "log_packet sn" for sn
  by unfold_locales (auto simp: log_packet_def Let_def wf_conn_def RECV_ACK_INT_def)

interpretation reset_log: conn_update reset_log
  by unfold_locales (auto simp: reset_log_def wf_conn_def)

interpretation touch: conn_update "touch ts" for ts
  by unfold_locales (auto simp: touch_def wf_conn_def)

interpretation on_packet_received: stats_update "on_packet_received n" for n
  by unfold_locales (simp add: on_packet_received_def wf_stats_def)

interpretation on_nak_detected: stats_update "on_nak_detected n" for n
  by unfold_locales (simp add: on_nak_detected_def wf_stats_def)

lemma rtt_index_in_range:
  "unat (word_of_int ((uint (i :: byte) + 1) mod int RTT_HISTORY_SIZE) :: byte) < RTT_HISTORY_SIZE"
proof -
  have m: "0 \<le> (uint i + 1) mod int RTT_HISTORY_SIZE" "(uint i + 1) mod int RTT_HISTORY_SIZE < int RTT_HISTORY_SIZE"
    by (simp_all add: RTT_HISTORY_SIZE_def)
  then have "uint (word_of_int ((uint i + 1) mod int RTT_HISTORY_SIZE) :: byte) = (uint i + 1) mod int RTT_HISTORY_SIZE"
    by (intro word_of_int_inverse [OF refl]) (auto simp: RTT_HISTORY_SIZE_def)
  with m show ?thesis by (simp add: unat_eq_nat_uint)
qed

interpretation telemetry: stats_update "update_connection_telemetry info t" for info t
  by unfold_locales
    (simp add: update_connection_telemetry_def update_rtt_history_def wf_stats_def rtt_index_in_range)

interpretation nak_cache: group_update "\<lambda>g. g\<lparr>nak_seen_hash := cache\<rparr>" for cache
  by unfold_locales (auto simp: wf_group_def owned_def)

lemma score_connection_frame:
  "address (score_connection t ms m e q c) = address c"
  "wf_conn (score_connection t ms m e q c) = wf_conn c"
  by (simp_all add: score_connection_def Let_def split_def telemetry_points_def
      calculate_nak_error_points_def evaluate_connection_legacy_def wf_conn_def wf_stats_def)

text \<open>A group operation that works on its connections one by one, and otherwise only on
  fields the invariant does not mention.\<close>

lemma group_update_connwise:
  assumes fields: "\<And>g. gptr (F g) = gptr g" "\<And>g. srt_sock (F g) = srt_sock g"
      "\<And>g. data_seen (F g) = data_seen g" "\<And>g. last_addr (F g) = last_addr g"
    and conns: "\<And>g. \<exists>f. conns (F g) = map f (conns g) \<and>
        (\<forall>c. address (f c) = address c \<and> wf_conn (f c) = wf_conn c)"
  shows "group_update F"
proof
  fix g
  obtain f where f: "conns (F g) = map f (conns g)" "\<And>c. address (f c) = address c"
    "\<And>c. wf_conn (f c) = wf_conn c" using conns by blast
  show "owned (F g) \<subseteq> owned g" by (auto simp: owned_def fields f)
  show "wf_group (F g)" if "wf_group g"
    using that by (simp add: wf_group_def fields f list_all_iff comp_def)
qed (simp_all add: fields)

interpretation evaluate: group_update "\<lambda>g. evaluate_group ms g t" for ms t
proof (rule group_update_connwise)
  fix g
  have "conns (evaluate_group ms g t) = map (\<lambda>c. c) (conns g) \<or>
      conns (evaluate_group ms g t) = map (scored (the ms) g t) (conns g)"
    by (simp add: evaluate_group_conns)
  moreover have "address (scored ms g t c) = address c" "wf_conn (scored ms g t c) = wf_conn c" for ms c
    by (simp_all add: scored_def score_connection_frame)
  ultimately show "\<exists>f. conns (evaluate_group ms g t) = map f (conns g) \<and>
      (\<forall>c. address (f c) = address c \<and> wf_conn (f c) = wf_conn c)" by blast
qed (simp_all add: evaluate_group_def Let_def split: option.split)

interpretation adjust: group_update "\<lambda>g. adjust_weights g t" for t
proof (rule group_update_connwise)
  fix g
  have "conns (adjust_weights g t) = map (\<lambda>c. c) (conns g) \<or>
      conns (adjust_weights g t) = map adjust_connection_weight (conns g)"
    by (simp add: adjust_weights_def)
  moreover have "address (adjust_connection_weight c) = address c"
    "wf_conn (adjust_connection_weight c) = wf_conn c" for c
    by (simp_all add: adjust_connection_weight_def Let_def wf_conn_def wf_stats_def)
  ultimately show "\<exists>f. conns (adjust_weights g t) = map f (conns g) \<and>
      (\<forall>c. address (f c) = address c \<and> wf_conn (f c) = wf_conn c)" by blast
qed (simp_all add: adjust_weights_def)

section \<open>Refinement of the group life cycle\<close>

text \<open>Nobody but the group \<open>p\<close> answers for the address.\<close>

definition sole_owner :: "nat \<Rightarrow> sockaddr_storage \<Rightarrow> receiver \<Rightarrow> bool" where
  "sole_owner p addr s \<longleftrightarrow> (\<forall>g\<in>set (groups s). gptr g \<noteq> p \<longrightarrow> addr_key addr \<notin> owned g)"

definition streaming :: "nat \<Rightarrow> receiver \<Rightarrow> bool" where
  "streaming p s \<longleftrightarrow> (\<forall>g\<in>set (groups s). gptr g = p \<longrightarrow> data_seen g)"

lemma sole_owner_frame [simp]:
  "sole_owner p addr (emit e s) = sole_owner p addr s" "sole_owner p addr (called s) = sole_owner p addr s"
  "sole_owner p addr (counted c n s) = sole_owner p addr s"
  by (simp_all add: sole_owner_def)

lemma streaming_frame [simp]:
  "streaming p (emit e s) = streaming p s" "streaming p (called s) = streaming p s"
  "streaming p (counted c n s) = streaming p s"
  by (simp_all add: streaming_def)

lemma sole_owner_found:
  assumes "wf_receiver s" and "find_by_address addr (groups s) = Some (p, r)"
  shows "sole_owner p addr s"
proof -
  obtain g where g: "g \<in> set (groups s)" "gptr g = p" "addr_key addr \<in> owned g"
    using find_by_address_Some [OF assms(2)] by blast
  with assms(1) show ?thesis
    unfolding sole_owner_def wf_receiver_def wf_groups_def by blast
qed

lemma sole_owner_unknown: "find_by_address addr (groups s) = None \<Longrightarrow> sole_owner p addr s"
  unfolding sole_owner_def find_by_address_None by blast

context group_update
begin

lemma streaming_upd: "streaming p s \<Longrightarrow> streaming p (upd_group q f s)"
  by (auto simp: streaming_def keeps_seen keeps_ptr)

lemma sole_owner_upd: "sole_owner p addr s \<Longrightarrow> sole_owner p addr (upd_group p f s)"
  by (auto simp: sole_owner_def keeps_ptr)

end

context conn_update
begin

lemma refines_upd_conn: "refines s (upd_conn p i f s)"
  unfolding upd_conn_def by (rule group.refines_upd)

lemma streaming_upd_conn: "streaming p s \<Longrightarrow> streaming p (upd_conn q i f s)"
  unfolding upd_conn_def by (rule group.streaming_upd)

lemma sole_owner_upd_conn: "sole_owner p addr s \<Longrightarrow> sole_owner p addr (upd_conn p i f s)"
  unfolding upd_conn_def by (rule group.sole_owner_upd)

lemma in_table_upd_conn [simp]: "in_table q (upd_conn p i f s) = in_table q s"
  unfolding upd_conn_def by simp

end

lemma streaming_view: "view s' = view s \<Longrightarrow> streaming p s \<Longrightarrow> streaming p s'"
  using groups_view(1) [of s' s] by (simp add: streaming_def)

lemma refines_set_last_address:
  assumes "sole_owner p addr s"
  shows "refines s (upd_group p (set_last_address addr) s)"
proof (rule refines_upd_group [where K = "{addr_key addr}"])
  show "allowed_update p (set_last_address addr) {addr_key addr} (groups s)"
    using assms
    by (auto simp: allowed_update_def sole_owner_def set_last_address_def wf_group_def owned_def)
qed (simp add: keeps_socket_def set_last_address_def)

text \<open>Sending, replying and the other steps the view does not see.\<close>

lemma view_reply [simp]: "view (reply os addr typ s) = view s"
  by (simp add: reply_def)

lemma view_refuse [simp]: "\<not> lifecycle_counter c \<Longrightarrow> view (refuse os addr typ c s) = view s"
  by (simp add: refuse_def)

lemma view_send_keepalive [simp]: "view (send_keepalive os conn t s) = view s"
  by (simp add: send_keepalive_def Let_def split_def)

interpretation keepalives: keepalive_sender "send_keepalive os" for os
  by unfold_locales simp

text \<open>\<open>register_packet\<close>, seen as one or two updates of the connection.\<close>

lemma register_packet_cases:
  obtains (logged) "register_packet os p i sn s = upd_conn p i (log_packet sn) s"
  | (acked) s1 where "view s1 = view (upd_conn p i (log_packet sn) s)"
      "register_packet os p i sn s = upd_conn p i reset_log s1"
proof -
  define s1 where "s1 = upd_conn p i (log_packet sn) s"
  show thesis
  proof (cases "get_conn p i s1")
    case None
    then show thesis using logged by (simp add: register_packet_def s1_def)
  next
    case (Some conn)
    define ack where "ack = srtla_ack_pkt (recv_log conn)"
    define r where "r = send_padded os (address conn) ack s1"
    define s2 where "s2 = (if fst r \<noteq> int (length ack) then counted SEND_ERR_ACK 1 (snd r) else snd r)"
    have v: "view s2 = view s1" by (simp add: r_def s2_def)
    have "register_packet os p i sn s =
        (if recv_idx conn = int RECV_ACK_INT then upd_conn p i reset_log s2 else s1)"
      using Some by (simp add: register_packet_def s1_def s2_def ack_def r_def Let_def split_def)
    then show thesis using v logged acked [of s2] unfolding s1_def by (metis (full_types))
  qed
qed

lemma refines_register_packet: "refines s (register_packet os p i sn s)"
proof (cases rule: register_packet_cases [of os p i sn s])
  case logged
  then show ?thesis by (simp add: log_packet.refines_upd_conn)
next
  case (acked s1)
  have "refines s s1" using log_packet.refines_upd_conn acked(1) by (rule refines_via)
  then show ?thesis unfolding acked(2) using reset_log.refines_upd_conn by (rule refines_trans)
qed

lemma streaming_register_packet: "streaming p s \<Longrightarrow> streaming p (register_packet os p i sn s)"
  by (cases rule: register_packet_cases [of os p i sn s])
    (auto intro: log_packet.streaming_upd_conn reset_log.streaming_upd_conn streaming_view)

lemma refines_handle_keepalive: "refines s (handle_keepalive os p i addr buffer s)"
proof -
  define t where "t = (case os_seconds os (tick s) of None \<Rightarrow> 0 | Some t \<Rightarrow> t)"
  define s1 where "s1 = (case parse_keepalive_conn_info buffer (int (length buffer)) of None \<Rightarrow> called s
    | Some info \<Rightarrow> upd_conn p i (upd_stats (update_connection_telemetry info t)) (called s))"
  have "refines (called s) s1"
    by (auto simp: s1_def telemetry.conn.refines_upd_conn split: option.split)
  then have "refines s s1" by (rule refines_from) simp
  moreover have "view (handle_keepalive os p i addr buffer s) = view s1"
    unfolding handle_keepalive_def Let_def t_def [symmetric] s1_def [symmetric] by (simp add: split_def)
  ultimately show ?thesis by (rule refines_via)
qed

lemma view_touch_connection:
  "view (touch_connection p i ts s) = view s \<or>
   view (touch_connection p i ts s) = view (upd_conn p i (touch ts) s)"
  by (simp add: touch_connection_def Let_def split: option.split)

lemma refines_touch_connection: "refines s (touch_connection p i ts s)"
  using view_touch_connection [of p i ts s] touch.refines_upd_conn [of s p i ts]
  by (auto simp: refines_def)

lemma sole_owner_view: "view s' = view s \<Longrightarrow> sole_owner p addr s \<Longrightarrow> sole_owner p addr s'"
  using groups_view(1) [of s' s] by (simp add: sole_owner_def)

lemma sole_owner_touch_connection: "sole_owner p addr s \<Longrightarrow> sole_owner p addr (touch_connection p i ts s)"
  using view_touch_connection [of p i ts s] touch.sole_owner_upd_conn [of p addr s i ts] sole_owner_view
  by blast

text \<open>The ways through \<open>note_nak\<close>.\<close>

lemma note_nak_steps:
  "refines s (snd (note_nak os p i buf ts s)) \<and>
   (streaming p s \<longrightarrow> streaming p (snd (note_nak os p i buf ts s)))"
proof (cases "get_group p s")
  case None
  then show ?thesis by (simp add: note_nak_def)
next
  case (Some g)
  obtain dup cache s0 where d: "is_duplicate_nak os g buf s = (dup, cache, s0)" by (metis prod_cases3)
  have s0: "s0 = called s" using d by (auto simp: is_duplicate_nak_def Let_def split_def)
  define s1 where "s1 = upd_group p (\<lambda>g. g\<lparr>nak_seen_hash := cache\<rparr>) s0"
  have "refines s0 s1" unfolding s1_def by (rule nak_cache.refines_upd)
  then have r1: "refines s s1" by (rule refines_from) (simp add: s0)
  have st1: "streaming p s1" if "streaming p s" unfolding s1_def s0
    by (rule nak_cache.streaming_upd) (use that in simp)
  define s2 where "s2 = upd_conn p i (upd_stats (on_nak_detected 1)) (counted NAKS_RECEIVED 1 s1)"
  have "refines (counted NAKS_RECEIVED 1 s1) s2" unfolding s2_def by (rule on_nak_detected.conn.refines_upd_conn)
  then have "refines s1 s2" by (rule refines_from) simp
  with r1 have r2: "refines s s2" by (rule refines_trans)
  have st2: "streaming p s2" if "streaming p s" unfolding s2_def
    by (rule on_nak_detected.conn.streaming_upd_conn) (use st1 that in simp)
  define s3 where "s3 = upd_group p (\<lambda>g. evaluate_group (os_ms os (tick s2)) g ts) (called s2)"
  have "refines (called s2) s3" unfolding s3_def by (rule evaluate.refines_upd)
  then have "refines s2 s3" by (rule refines_from) simp
  with r2 have r3: "refines s s3" by (rule refines_trans)
  have st3: "streaming p s3" if "streaming p s" unfolding s3_def
    by (rule evaluate.streaming_upd) (use st2 that in simp)
  have "note_nak os p i buf ts s = (if dup then (True, counted NAKS_SUPPRESSED 1 s1)
      else case (get_group p s2, get_conn p i s2) of
        (Some g, Some conn) \<Rightarrow> if nack_count (stats conn) > 5 \<and> last_quality_eval g + 1 < ts
          then (False, s3) else (False, s2)
      | _ \<Rightarrow> (False, s2))"
    unfolding note_nak_def Let_def s3_def s2_def s1_def using Some d by simp
  then consider "snd (note_nak os p i buf ts s) = counted NAKS_SUPPRESSED 1 s1"
    | "snd (note_nak os p i buf ts s) = s2" | "snd (note_nak os p i buf ts s) = s3"
    by (auto split: if_splits option.splits)
  moreover have "refines s (counted NAKS_SUPPRESSED 1 s1)" by (rule refines_via [OF r1]) simp
  ultimately show ?thesis by cases (use r2 r3 st1 st2 st3 in simp_all)
qed

lemma refines_register_and_forward:
  assumes "streaming p s"
  shows "refines s (register_and_forward os p i buf s)"
proof -
  define s1 where "s1 = (if get_srt_sn buf (int (length buf)) \<ge> 0
    then register_packet os p i (get_srt_sn buf (int (length buf))) s else s)"
  have "refines s s1" by (simp add: s1_def refines_register_packet)
  moreover have st: "streaming p s1" using assms by (simp add: s1_def streaming_register_packet)
  have "refines s1 (snd (forward_to_srt_server os p buf s1))"
    by (rule refines_forward) (use st in \<open>auto simp: streaming_def dest: get_group_Some\<close>)
  ultimately show ?thesis
    unfolding register_and_forward_def Let_def s1_def [symmetric] by (rule refines_trans)
qed

lemma streaming_mark_data_seen: "streaming p (upd_group p mark_data_seen s)"
  unfolding streaming_def upd_group_frame set_map ball_simps by (simp add: mark_data_seen_def)

lemma streaming_set_last_address: "streaming p s \<Longrightarrow> streaming p (upd_group q (set_last_address addr) s)"
  unfolding streaming_def upd_group_frame set_map ball_simps by (simp add: set_last_address_def)

lemma refines_process_srt_packet:
  assumes "sole_owner p addr s"
  shows "refines s (process_srt_packet os p i buf addr ts s)"
proof -
  define s1 where "s1 = upd_group p mark_data_seen s"
  define s2 where "s2 = upd_group p (set_last_address addr) s1"
  define s3 where "s3 = upd_conn p i (upd_stats (on_packet_received (length buf))) s2"
  have "refines s s1" unfolding s1_def by (rule mark_data_seen.refines_upd)
  also have "refines s1 s2" unfolding s2_def s1_def
    by (intro refines_set_last_address mark_data_seen.sole_owner_upd assms)
  also have "refines s2 s3" unfolding s3_def by (rule on_packet_received.conn.refines_upd_conn)
  finally have r: "refines s s3" .
  have st: "streaming p s3" unfolding s3_def s2_def s1_def
    by (intro on_packet_received.conn.streaming_upd_conn streaming_set_last_address streaming_mark_data_seen)
  obtain b s4 where n: "note_nak os p i buf ts s3 = (b, s4)" by fastforce
  have r4: "refines s3 s4" and st4: "streaming p s4" using note_nak_steps [of s3 os p i buf ts] st n by simp_all
  have "refines s (register_and_forward os p i buf s3)"
    by (rule refines_trans [OF r refines_register_and_forward [OF st]])
  moreover have r5: "refines s s4" using r r4 by (rule refines_trans)
  moreover have "refines s (register_and_forward os p i buf s4)"
    by (rule refines_trans [OF r5 refines_register_and_forward [OF st4]])
  ultimately show ?thesis
    unfolding process_srt_packet_def Let_def s1_def [symmetric] s2_def [symmetric] s3_def [symmetric]
    using n by (cases b) simp_all
qed

lemma refines_process_known_packet:
  assumes "sole_owner p addr s"
  shows "refines s (process_known_packet os p i buf addr ts s)"
proof -
  let ?s = "touch_connection p i ts s"
  have r: "refines s ?s" by (rule refines_touch_connection)
  have "sole_owner p addr ?s" using assms by (rule sole_owner_touch_connection)
  then have "refines ?s (process_srt_packet os p i buf addr ts ?s)" by (rule refines_process_srt_packet)
  with r have "refines s (process_srt_packet os p i buf addr ts ?s)" by (rule refines_trans)
  moreover have "refines s (handle_keepalive os p i addr buf ?s)"
    using r refines_handle_keepalive by (rule refines_trans)
  ultimately show ?thesis using r unfolding process_known_packet_def Let_def by simp
qed

lemma find_group_by_id_in: "find_group_by_id ident gs = Some g \<Longrightarrow> g \<in> set gs"
  by (auto simp: find_group_by_id_def find_Some_iff)

lemma wf_new_connection [simp]: "wf_conn (new_connection addr ts)"
  by (simp add: wf_conn_def new_connection_def wf_stats_def new_stats_def RTT_HISTORY_SIZE_def)

lemma address_new_connection [simp]: "address (new_connection addr ts) = addr"
  by (simp add: new_connection_def)

lemma wf_add_connection:
  assumes "wf_group g" and "length (conns g) < MAX_CONNS_PER_GROUP" and "find_conn addr (conns g) = None"
  shows "wf_group (add_connection (new_connection addr ts) g)"
proof -
  have "addr_key addr \<notin> (addr_key \<circ> address) ` set (conns g)" using assms(3) find_conn_None by blast
  with assms(1,2) show ?thesis by (simp add: wf_group_def add_connection_def)
qed

text \<open>The group of an accepted REG2 takes the address, as a new connection or an old one.\<close>

lemma refines_join:
  assumes wf: "wf_receiver s" and g: "g \<in> set (groups s)" and own: "sole_owner (gptr g) addr s"
    and room: "length (conns g) < MAX_CONNS_PER_GROUP" and new: "find_conn addr (conns g) = None"
  shows "refines s (upd_group (gptr g) (add_connection (new_connection addr ts)) s)"
proof (rule refines_upd_group [where K = "{addr_key addr}"])
  have "h = g" if "h \<in> set (groups s)" "gptr h = gptr g" for h
    using wf g that distinct_gptr by (auto simp: wf_receiver_def wf_groups_def)
  then show "allowed_update (gptr g) (add_connection (new_connection addr ts)) {addr_key addr} (groups s)"
    using own wf_add_connection [OF _ room new, of ts]
    by (auto simp: allowed_update_def sole_owner_def owned_def add_connection_def)
qed (simp add: keeps_socket_def add_connection_def)

text \<open>The address a REG2 may bring to the group \<open>g\<close>.\<close>

lemma reg2_owner:
  assumes wf: "wf_receiver s" and "case find_by_address addr (groups s) of None \<Rightarrow> True | Some (p, _) \<Rightarrow> p = gptr g"
  shows "sole_owner (gptr g) addr s"
proof (cases "find_by_address addr (groups s)")
  case None
  then show ?thesis by (rule sole_owner_unknown)
next
  case (Some pr)
  with assms(2) have "find_by_address addr (groups s) = Some (gptr g, snd pr)" by (cases pr) simp
  with wf show ?thesis by (rule sole_owner_found)
qed

lemma reg2_new:
  assumes wf: "wf_receiver s" and g: "g \<in> set (groups s)"
    and new: "\<not> (case find_by_address addr (groups s) of Some (_, Some _) \<Rightarrow> True | _ \<Rightarrow> False)"
  shows "find_conn addr (conns g) = None"
proof (rule ccontr)
  assume conn: "find_conn addr (conns g) \<noteq> None"
  then have "addr_key addr \<in> owned g"
    using find_conn_None [of addr "conns g"] by (auto simp: owned_def)
  then have "find_by_address addr (groups s) = Some (gptr g, find_conn addr (conns g))"
    using find_by_address_owned [of "groups s" "next_ptr s" g addr] wf g by (simp add: wf_receiver_def)
  with new conn show False by (auto split: option.splits)
qed


text \<open>\<open>register_connection\<close> once the group is known, with its tests and its effects apart.\<close>

definition reg2_mismatch :: "sockaddr_storage \<Rightarrow> connection_group \<Rightarrow> receiver \<Rightarrow> bool" where
  "reg2_mismatch addr g s \<longleftrightarrow>
     (case find_by_address addr (groups s) of None \<Rightarrow> False | Some (p, _) \<Rightarrow> p \<noteq> gptr g)"

definition reg2_known :: "sockaddr_storage \<Rightarrow> receiver \<Rightarrow> bool" where
  "reg2_known addr s \<longleftrightarrow> (case find_by_address addr (groups s) of Some (_, Some _) \<Rightarrow> True | _ \<Rightarrow> False)"

definition reg2_join :: "os \<Rightarrow> sockaddr_storage \<Rightarrow> time_t \<Rightarrow> connection_group \<Rightarrow> bool \<Rightarrow> receiver \<Rightarrow> receiver" where
  "reg2_join os addr ts g known s =
     (let join = (if known then (\<lambda>g. g) else add_connection (new_connection addr ts));
          s = write_socket_info_file os (join g) (upd_group (gptr g) join s)
      in counted CONN_REGISTRATIONS 1 (upd_group (gptr g) (set_last_address addr) s))"

lemma register_connection_eq:
  assumes "find_group_by_id (drop 2 buffer) (groups s) = Some g"
  shows "register_connection os addr buffer ts s =
    (if reg2_mismatch addr g s then refuse os addr SRTLA_TYPE_REG_ERR CONN_REG_GROUP_MISMATCH s
     else if \<not> reg2_known addr s \<and> length (conns g) \<ge> MAX_CONNS_PER_GROUP
     then refuse os addr SRTLA_TYPE_REG_ERR CONN_REG_MAX_CONNS s
     else case send_padded os addr (put_be16 SRTLA_TYPE_REG3) s of (ret, s') \<Rightarrow>
       if ret \<noteq> 2 then counted CONN_REG_SEND_ERROR 1 s'
       else reg2_join os addr ts g (reg2_known addr s) s')"
  unfolding register_connection_def reg2_mismatch_def reg2_known_def reg2_join_def Let_def
  using assms by simp

lemma refines_reg2_join:
  assumes wf: "wf_receiver s" and g: "g \<in> set (groups s)" and own: "\<not> reg2_mismatch addr g s"
    and room: "reg2_known addr s \<or> length (conns g) < MAX_CONNS_PER_GROUP"
  shows "refines s (reg2_join os addr ts g (reg2_known addr s) s)"
proof -
  define join where "join = (if reg2_known addr s then (\<lambda>g. g) else add_connection (new_connection addr ts))"
  define s1 where "s1 = upd_group (gptr g) join s"
  define s2 where "s2 = write_socket_info_file os (join g) s1"
  have sole: "sole_owner (gptr g) addr s"
    by (rule reg2_owner [OF wf]) (use own in \<open>auto simp: reg2_mismatch_def split: option.splits\<close>)
  have "refines s s1"
  proof (cases "reg2_known addr s")
    case True
    then have "view s1 = view s" by (simp add: s1_def join_def upd_group_def)
    then show ?thesis by (rule refines_same)
  next
    case False
    have "find_conn addr (conns g) = None"
      by (rule reg2_new [OF wf g]) (use False in \<open>simp add: reg2_known_def\<close>)
    then show ?thesis using False room refines_join [OF wf g sole] by (simp add: s1_def join_def)
  qed
  then have "refines s s2" by (rule refines_via) (simp add: s2_def)
  moreover have "sole_owner (gptr g) addr s1"
    using sole unfolding sole_owner_def s1_def upd_group_frame set_map ball_simps
    by (simp add: join_def add_connection_def)
  then have "sole_owner (gptr g) addr s2" by (rule sole_owner_view [rotated]) (simp add: s2_def)
  then have "refines s2 (upd_group (gptr g) (set_last_address addr) s2)" by (rule refines_set_last_address)
  ultimately have "refines s (upd_group (gptr g) (set_last_address addr) s2)" by (rule refines_trans)
  then show ?thesis
    by (rule refines_via) (simp add: reg2_join_def join_def s1_def s2_def Let_def)
qed

lemma refines_register_connection: "refines s (register_connection os addr buffer ts s)"
proof (rule refines_wfI)
  assume wf: "wf_receiver s"
  show "refines s (register_connection os addr buffer ts s)"
  proof (cases "find_group_by_id (drop 2 buffer) (groups s)")
    case None
    then show ?thesis by (simp add: register_connection_def refines_same)
  next
    case (Some g)
    have g: "g \<in> set (groups s)" using Some by (rule find_group_by_id_in)
    obtain ret s' where snt: "send_padded os addr (put_be16 SRTLA_TYPE_REG3) s = (ret, s')" by fastforce
    then have v: "view s' = view s" using view_send_padded [of os addr "put_be16 SRTLA_TYPE_REG3" s] by simp
    have wf': "wf_receiver s'" using refines_wf [OF refines_same [OF v] wf] .
    have gs: "groups s' = groups s" using v by (rule groups_view(1))
    then have same: "reg2_known addr s' = reg2_known addr s" "reg2_mismatch addr g s' = reg2_mismatch addr g s"
      by (simp_all add: reg2_known_def reg2_mismatch_def)
    have "refines s (reg2_join os addr ts g (reg2_known addr s) s')"
      if "\<not> reg2_mismatch addr g s" "reg2_known addr s \<or> length (conns g) < MAX_CONNS_PER_GROUP"
      by (rule refines_from [OF _ v])
        (use refines_reg2_join [OF wf', of g addr os ts] g gs same that in simp)
    then show ?thesis
      unfolding register_connection_eq [OF Some] snt by (auto simp: v intro: refines_same)
  qed
qed

text \<open>The outcomes of a REG1 once a slot is free and the address is unknown.\<close>

lemma wf_new_group: "wf_group (set_last_address addr (new_group p cid rb ts))"
  by (simp add: wf_group_def set_last_address_def new_group_def)

lemma owned_new_group: "owned (set_last_address addr (new_group p cid rb ts)) = {addr_key addr}"
  by (simp add: owned_def set_last_address_def new_group_def)

definition admit :: "os \<Rightarrow> sockaddr_storage \<Rightarrow> byte list \<Rightarrow> time_t \<Rightarrow> receiver \<Rightarrow> failure + receiver" where
  "admit os addr buffer ts s =
     (case get_random_bytes os (SRTLA_ID_LEN div 2) s of
        (None, s) \<Rightarrow> Inl Runtime_Error
      | (Some random_bytes, s) \<Rightarrow>
          let g = set_last_address addr (new_group (next_ptr s) (drop 2 buffer) random_bytes ts);
              s = s\<lparr>next_ptr := Suc (next_ptr s)\<rparr>;
              (ret, s) = send_padded os addr (reg2_packet g) s
          in if ret \<noteq> SRTLA_TYPE_REG2_LEN then Inr (counted GROUP_REG_SEND_ERROR 1 s)
             else Inr (counted GROUP_REGISTRATIONS 1 (add_group g s)))"

definition make_room :: "os \<Rightarrow> receiver \<Rightarrow> bool \<times> receiver" where
  "make_room os s = (if length (groups s) \<ge> MAX_GROUPS then evict_oldest_pending_group os s else (True, s))"

lemma register_group_eq:
  "register_group os addr buffer ts s =
     (if is_blocked addr ts (limiter s) then Inr (refuse os addr SRTLA_TYPE_REG_ERR GROUP_REG_THROTTLED s)
      else case make_room os s of (room, s) \<Rightarrow>
        if \<not> room then Inr (refuse os addr SRTLA_TYPE_REG_ERR GROUP_REG_TABLE_FULL s)
        else if find_by_address addr (groups s) \<noteq> None
        then Inr (refuse os addr SRTLA_TYPE_REG_ERR GROUP_REG_DUP_ADDR s)
        else admit os addr buffer ts s)"
  unfolding register_group_def make_room_def admit_def Let_def ..

lemma make_room_room:
  assumes "wf_receiver s" and "make_room os s = (True, s')"
  shows "length (groups s') < MAX_GROUPS"
proof -
  have "length (groups s) \<le> MAX_GROUPS" using assms(1) by (simp add: wf_receiver_def wf_groups_def)
  with assms evict_room [of s os s'] show ?thesis by (auto simp: make_room_def split: if_splits)
qed

lemma refines_make_room: "refines s (snd (make_room os s))"
  by (simp add: make_room_def refines_evict)

lemma refines_admit:
  assumes "length (groups s) < MAX_GROUPS" and new: "find_by_address addr (groups s) = None"
    and adm: "admit os addr buffer ts s = Inr s'"
  shows "refines s s'"
proof -
  obtain rb s1 where r: "get_random_bytes os (SRTLA_ID_LEN div 2) s = (Some rb, s1)"
    using adm by (auto simp: admit_def split: prod.splits option.splits)
  then have v1: "view s1 = view s" using view_get_random_bytes [of os "SRTLA_ID_LEN div 2" s] by simp
  define g where "g = set_last_address addr (new_group (next_ptr s1) (drop 2 buffer) rb ts)"
  obtain ret s2 where snt: "send_padded os addr (reg2_packet g) (s1\<lparr>next_ptr := Suc (next_ptr s1)\<rparr>) = (ret, s2)"
    by fastforce
  have "view s2 = view (s1\<lparr>next_ptr := Suc (next_ptr s1)\<rparr>)"
    using view_send_padded [of os addr "reg2_packet g" "s1\<lparr>next_ptr := Suc (next_ptr s1)\<rparr>"] snt by simp
  also have "\<dots> = (view s1)\<lparr>fresh := Suc (fresh (view s1))\<rparr>" by (simp add: view_def)
  finally have v2: "view s2 = (view s)\<lparr>fresh := Suc (fresh (view s))\<rparr>" by (simp add: v1)
  show ?thesis
  proof (cases "ret = SRTLA_TYPE_REG2_LEN")
    case False
    with adm r snt have "s' = counted GROUP_REG_SEND_ERROR 1 s2" by (simp add: admit_def g_def [symmetric] Let_def)
    then have "view s' = (view s)\<lparr>fresh := Suc (fresh (view s))\<rparr>" using v2 by simp
    then show ?thesis using vstep.discard [of "view s"] by (simp add: refines_def r_into_rtranclp)
  next
    case True
    with adm r snt have s': "s' = counted GROUP_REGISTRATIONS 1 (add_group g s2)"
      by (simp add: admit_def g_def [symmetric] Let_def)
    have p: "gptr g = next_ptr s"
      using v1 by (simp add: g_def set_last_address_def new_group_def view_def)
    have "vstep (view s) ((view s)\<lparr>table := table (view s) @ [g], fresh := Suc (fresh (view s)),
        registered := registered (view s) + 1\<rparr>)"
    proof (rule vstep.enter)
      show "owned h \<inter> owned g = {}" if "h \<in> set (table (view s))" for h
        using that new find_by_address_None [of addr "groups s"] by (auto simp: g_def owned_new_group)
    qed (use assms(1) p in \<open>simp_all add: g_def wf_new_group, simp add: set_last_address_def new_group_def\<close>)
    moreover have "groups s2 = groups s" "g_values s2 GROUP_REGISTRATIONS = g_values s GROUP_REGISTRATIONS"
      using arg_cong [OF v2, of table] arg_cong [OF v2, of registered] by simp_all
    then have "view s' = (view s)\<lparr>table := table (view s) @ [g], fresh := Suc (fresh (view s)),
        registered := registered (view s) + 1\<rparr>"
      by (intro registry_view.equality)
        (simp_all add: s' view_counted_registration add_group_def view_groups v2)
    ultimately show ?thesis by (simp add: refines_def r_into_rtranclp)
  qed
qed


lemma refines_register_group:
  assumes "register_group os addr buffer ts s = Inr s'"
  shows "refines s s'"
proof (rule refines_wfI)
  assume wf: "wf_receiver s"
  obtain room s1 where m: "make_room os s = (room, s1)" by fastforce
  have r1: "refines s s1" using refines_make_room [of s os] m by simp
  show "refines s s'"
  proof (cases "is_blocked addr ts (limiter s)")
    case True
    with assms show ?thesis by (auto simp: register_group_eq intro!: refines_same)
  next
    case False
    show ?thesis
    proof (cases "room \<and> find_by_address addr (groups s1) = None")
      case True
      with assms False m have "admit os addr buffer ts s1 = Inr s'" by (simp add: register_group_eq)
      moreover have "length (groups s1) < MAX_GROUPS" using make_room_room [OF wf] m True by simp
      ultimately have "refines s1 s'" using True refines_admit by blast
      with r1 show ?thesis by (rule refines_trans)
    next
      case refused: False
      then have "view s' = view s1" using assms False m by (auto simp: register_group_eq split: if_splits)
      with r1 show ?thesis by (rule refines_via)
    qed
  qed
qed

lemma refines_process_single_packet:
  assumes "process_single_packet os buf addr ts s = Inr s'"
  shows "refines s s'"
proof (rule refines_wfI)
  assume wf: "wf_receiver s"
  consider "is_srtla_reg1 buf (int (length buf))"
    | "\<not> is_srtla_reg1 buf (int (length buf))" "is_srtla_reg2 buf (int (length buf))"
    | p i where "\<not> is_srtla_reg1 buf (int (length buf))" "\<not> is_srtla_reg2 buf (int (length buf))"
        "find_by_address addr (groups s) = Some (p, Some i)"
    | "s' = s"
    using assms by (auto simp: process_single_packet_def Let_def split: option.splits if_splits)
  then show "refines s s'"
  proof cases
    case 1
    with assms show ?thesis by (simp add: process_single_packet_def refines_register_group)
  next
    case 2
    with assms show ?thesis by (auto simp: process_single_packet_def refines_register_connection)
  next
    case 3
    with assms have "s' = process_known_packet os p i buf addr ts s" by (simp add: process_single_packet_def)
    with refines_process_known_packet sole_owner_found [OF wf 3(3)] show ?thesis by simp
  qed simp
qed

lemma refines_process_batch: "process_batch os ts msgs s = Inr s' \<Longrightarrow> refines s s'"
proof (induction msgs arbitrary: s)
  case (Cons msg msgs)
  obtain addr data where msg: "msg = (addr, data)" by fastforce
  define s1 where "s1 = counted BYTES_RECEIVED (of_nat (length (take MTU data))) (counted PACKETS_RECEIVED 1 s)"
  show ?case
  proof (cases "0 < length (take MTU data)")
    case False
    with Cons msg show ?thesis by (auto simp: Let_def split: if_splits)
  next
    case True
    with Cons.prems obtain s2 where s2: "process_single_packet os (take MTU data) addr ts s1 = Inr s2"
      "process_batch os ts msgs s2 = Inr s'"
      by (auto simp: msg s1_def Let_def split: sum.splits)
    have "refines s s1" by (rule refines_same) (simp add: s1_def)
    also have "refines s1 s2" using s2(1) by (rule refines_process_single_packet)
    also have "refines s2 s'" using s2(2) by (rule Cons.IH)
    finally show ?thesis .
  qed
qed simp

lemma refines_process_packets:
  assumes "process_packets os ts s = Inr s'"
  shows "refines s s'"
proof (cases "os_recvmmsg os (tick s)")
  case None
  with assms show ?thesis by (auto simp: process_packets_def intro: refines_same)
next
  case (Some msgs)
  with assms have "refines (counted RECV_BATCHES 1 (called s)) s'"
    by (simp add: process_packets_def refines_process_batch)
  then show ?thesis by (rule refines_from) simp
qed

end
