(* ===== verification/Isolation.thy ===== *)
theory Isolation
  imports Srtla_Handler
begin

text \<open>
  What one datagram can touch. The handlers of the client side work on the group that owns the
  source address, or that the registration names; every other group of the table is left as it is.
\<close>

section \<open>The groups other than one\<close>

definition others :: "nat \<Rightarrow> receiver \<Rightarrow> connection_group list" where
  "others p s = filter (\<lambda>h. gptr h \<noteq> p) (groups s)"

named_theorems keeps_others \<open>operations on one group that leave the others alone\<close>

lemma others_view: "groups s' = groups s \<Longrightarrow> others p s' = others p s"
  by (simp add: others_def)

lemma others_frame [keeps_others]:
  "others p (emit e s) = others p s" "others p (called s) = others p s"
  "others p (counted c n s) = others p s"
  by (simp_all add: others_def)

lemma others_upd_group:
  "(\<And>g. gptr (f g) = gptr g) \<Longrightarrow> others p (upd_group p f s) = others p s"
  unfolding others_def upd_group_frame
  using filter_replace_group [of f p "groups s"] by (simp add: replace_group_def)

context group_update
begin

lemma keeps_rest: "others p (upd_group p f s) = others p s"
  by (rule others_upd_group) (rule keeps_ptr)

end

lemma others_set_last [keeps_others]: "others p (upd_group p (set_last_address a) s) = others p s"
  by (rule others_upd_group) (simp add: set_last_address_def)

lemma others_upd_conn [keeps_others]: "others p (upd_conn p i f s) = others p s"
  unfolding upd_conn_def by (rule others_upd_group) (simp add: map_conn_def)

lemma others_send [keeps_others]: "others p (snd (send_padded os a b s)) = others p s"
  by (rule others_view) (rule send_padded_core [THEN same_core_groups])

lemma others_register_packet [keeps_others]: "others p (register_packet os p i sn s) = others p s"
  by (auto simp: register_packet_def Let_def split_def keeps_others split: option.splits)

lemma others_handle_keepalive [keeps_others]: "others p (handle_keepalive os p i a b s) = others p s"
  by (auto simp: handle_keepalive_def Let_def split_def keeps_others split: option.splits)

lemma others_touch [keeps_others]: "others p (touch_connection p i ts s) = others p s"
  by (auto simp: touch_connection_def Let_def keeps_others split: option.splits)

lemma others_note_nak [keeps_others]: "others p (snd (note_nak os p i b ts s)) = others p s"
  by (auto simp: note_nak_def is_duplicate_nak_def Let_def split_def keeps_others
      nak_cache.keeps_rest evaluate.keeps_rest split: option.splits)

lemma others_forward [keeps_others]: "others p (snd (forward_to_srt_server os p b s)) = others p s"
proof (cases "get_group p s")
  case (Some g)
  from forward_outcome [OF this, where os = os and buffer = b] show ?thesis
    by (auto simp: others_def split: prod.splits if_splits)
qed (simp add: forward_to_srt_server_def)

lemma others_register_and_forward [keeps_others]: "others p (register_and_forward os p i b s) = others p s"
  by (simp add: register_and_forward_def Let_def keeps_others)

lemma others_process_srt_packet [keeps_others]: "others p (process_srt_packet os p i b a ts s) = others p s"
  by (auto simp: process_srt_packet_def Let_def keeps_others mark_data_seen.keeps_rest
      split: prod.splits bool.splits dest: arg_cong [where f = "\<lambda>r. others p (snd r)"])

lemma others_known_packet: "others p (process_known_packet os p i b a ts s) = others p s"
  by (simp add: process_known_packet_def Let_def keeps_others)

section \<open>Registrations\<close>

lemma others_register_connection:
  assumes "find_group_by_id (drop 2 buf) (groups s) = Some g"
  shows "others (gptr g) (register_connection os addr buf ts s) = others (gptr g) s"
  unfolding register_connection_eq [OF assms]
  by (auto simp: refuse_def reply_def reg2_join_def Let_def split_def keeps_others others_upd_group
      add_connection_def others_view [OF write_socket_info_file_core [THEN same_core_groups]])

lemma unknown_register_connection:
  assumes "find_group_by_id (drop 2 buf) (groups s) = None"
  shows "groups (register_connection os addr buf ts s) = groups s"
  using assms by (simp add: register_connection_def refuse_def reply_def send_padded_core [THEN same_core_groups])

lemma groups_refuse [simp]: "groups (refuse os addr typ c s) = groups s"
  by (simp add: refuse_def reply_def send_padded_core [THEN same_core_groups])

lemma groups_make_room:
  assumes "h \<in> set (groups s)" and "wf_receiver s"
  shows "h \<in> set (groups (snd (make_room os s))) \<or> pending h"
proof (cases "oldest_pending (groups s) None")
  case (Some g)
  then have g: "g \<in> set (groups s)" "pending g" using oldest_pending_Some [OF Some] by auto
  have "h = g" if "gptr h = gptr g"
    using distinct_gptr [OF _ assms(1) g(1) that] assms(2) by (simp add: wf_receiver_def wf_groups_def)
  with g Some assms(1) show ?thesis
    by (auto simp: make_room_def evict_oldest_pending_group_def)
qed (use assms in \<open>simp add: make_room_def evict_oldest_pending_group_def\<close>)

lemma groups_admit:
  assumes "admit os addr buf ts s = Inr s'"
  shows "\<exists>gs. groups s' = groups s @ gs"
  using assms
  by (auto simp: admit_def Let_def split_def add_group_def send_padded_core [THEN same_core_groups]
      get_random_bytes_core [THEN same_core_groups] split: option.splits if_splits)

lemma groups_register_group:
  assumes "register_group os addr buf ts s = Inr s'" and "h \<in> set (groups s)" and "wf_receiver s"
  shows "h \<in> set (groups s') \<or> pending h"
  using assms(1) groups_make_room [OF assms(2,3), of os] groups_admit [of os addr buf ts "snd (make_room os s)" s']
  by (auto simp: register_group_eq assms(2) split: prod.splits if_splits)

lemma untouched_in:
  assumes "wf_receiver s" "h \<in> set (groups s)" "others (gptr g) s' = others (gptr g) s" "g \<in> set (groups s)" "g \<noteq> h"
  shows "h \<in> set (groups s')"
proof -
  have "gptr h \<noteq> gptr g"
    using distinct_gptr [OF _ assms(2,4)] assms(1,5) by (auto simp: wf_receiver_def wf_groups_def)
  then have "h \<in> set (others (gptr g) s)" using assms(2) by (simp add: others_def)
  then have "h \<in> set (others (gptr g) s')" using assms(3) by simp
  then show ?thesis by (simp add: others_def)
qed

text \<open>C10. A datagram touches only its own group. A group that does not own the source address,
  and that the datagram does not name in a connection registration, is in the table
  unchanged after the datagram; the only exception is a group that never streamed, which a group
  registration may evict when the table is full.\<close>

theorem datagram_isolation:
  assumes wf: "wf_receiver s" and res: "process_single_packet os buf addr ts s = Inr s'"
    and h: "h \<in> set (groups s)" "addr_key addr \<notin> owned h"
    and reg2: "\<not> (is_srtla_reg2 buf (int (length buf)) \<and> find_group_by_id (drop 2 buf) (groups s) = Some h)"
  shows "h \<in> set (groups s') \<or> is_srtla_reg1 buf (int (length buf)) \<and> conns h = [] \<and> \<not> data_seen h"
proof (cases "is_srtla_reg1 buf (int (length buf))")
  case True
  then show ?thesis using res groups_register_group [OF _ h(1) wf] by (simp add: process_single_packet_def pending_def)
next
  case reg1: False
  show ?thesis
  proof (cases "is_srtla_reg2 buf (int (length buf))")
    case True
    with reg1 res have s': "s' = register_connection os addr buf ts s" by (simp add: process_single_packet_def)
    show ?thesis
    proof (cases "find_group_by_id (drop 2 buf) (groups s)")
      case None
      then show ?thesis using h(1) by (simp add: s' unknown_register_connection)
    next
      case (Some g)
      with True reg2 show ?thesis
        using untouched_in [OF wf h(1), where g = g and s' = s'] others_register_connection [OF Some] find_group_by_id_in [OF Some] by (auto simp: s')
    qed
  next
    case False
    show ?thesis
    proof (cases "\<exists>p i. find_by_address addr (groups s) = Some (p, Some i)")
      case True
      then obtain p i where pi: "find_by_address addr (groups s) = Some (p, Some i)" by blast
      with reg1 False res have s': "s' = process_known_packet os p i buf addr ts s" by (simp add: process_single_packet_def)
      obtain g where "g \<in> set (groups s)" "gptr g = p" "addr_key addr \<in> owned g"
        using find_by_address_Some [OF pi] by blast
      with h(2) show ?thesis using untouched_in [OF wf h(1), where g = g and s' = s'] others_known_packet [of p] by (auto simp: s')
    next
      case none: False
      with reg1 False res have "s' = s"
        by (auto simp: process_single_packet_def split: option.splits)
      with h(1) show ?thesis by simp
    qed
  qed
qed

lemma others_srt_side [keeps_others]:
  "others p (record_auth_failure os g s) = others p s"
  "others p (broadcast os g b s) = others p s"
  "others p (send_downstream os g b s) = others p s"
  "others p (remove_group os p c s) = others p s"
  "others p (end_failed_auth os p f s) = others p s"
  by (simp_all add: others_def record_auth_failure_def broadcast_def send_downstream_def end_failed_auth_def
      Let_def split_def send_padded_core [THEN same_core_groups])

lemma others_handle_srt_packet: "others (gptr g) (handle_srt_packet os g buf s) = others (gptr g) s"
  unfolding handle_srt_packet_def Let_def
  by (simp only: keeps_others mark_established.keeps_rest split: if_split) simp

lemma others_handle_srt_data: "others p (handle_srt_data os p s) = others p s"
proof -
  show ?thesis
  proof (cases "get_group p s")
    case (Some g)
    then have "gptr g = p" using get_group_Some by blast
    with Some show ?thesis
      by (simp add: handle_srt_data_def recv_srt_def Let_def others_handle_srt_packet [of g, simplified \<open>gptr g = p\<close>] keeps_others split: option.split)
  qed (simp add: handle_srt_data_def)
qed


section \<open>A client packet the server refuses\<close>

text \<open>The rate limiter and the socket of the group \<open>p\<close>.\<close>
definition endpoint :: "nat \<Rightarrow> receiver \<Rightarrow> auth_entries \<times> int option" where
  "endpoint p s = (limiter s, map_option srt_sock (get_group p s))"

lemma endpoint_core: "same_core s s' \<Longrightarrow> endpoint p s' = endpoint p s"
  by (simp add: endpoint_def same_core_def get_group_def)

lemma endpoint_frame:
  "endpoint p (emit e s) = endpoint p s" "endpoint p (called s) = endpoint p s"
  "endpoint p (counted c n s) = endpoint p s"
  by (simp_all add: endpoint_def get_group_def)

lemma endpoint_upd:
  "(\<And>g. gptr (f g) = gptr g) \<Longrightarrow> (\<And>g. srt_sock (f g) = srt_sock g) \<Longrightarrow>
     endpoint p (upd_group q f s) = endpoint p s"
  by (simp add: endpoint_def get_group_upd option.map_comp comp_def option.map_ident_strong split: option.split)

lemma endpoint_upd_conn: "endpoint p (upd_conn q i f s) = endpoint p s"
  unfolding upd_conn_def by (rule endpoint_upd) (simp_all add: map_conn_def)

lemmas endpoint_simps = endpoint_frame endpoint_upd_conn endpoint_core [OF send_padded_core]

lemma endpoint_register_packet: "endpoint p (register_packet os q i sn s) = endpoint p s"
  by (auto simp: register_packet_def Let_def split_def endpoint_simps split: option.splits)

lemma endpoint_touch: "endpoint p (touch_connection q i ts s) = endpoint p s"
  by (auto simp: touch_connection_def Let_def endpoint_simps split: option.splits)

lemma forward_refused:
  assumes "endpoint p s = (l, Some fd)" "0 \<le> fd" "\<not> send_ok ret err buf" "\<And>t. os_send os t fd buf = (ret, err)"
  shows "groups (snd (forward_to_srt_server os p buf s)) = others p s"
    "limiter (snd (forward_to_srt_server os p buf s)) = l"
proof -
  obtain g where g: "get_group p s = Some g" "srt_sock g = fd" "limiter s = l"
    using assms(1) by (auto simp: endpoint_def)
  have "\<not> (ret = int (length buf) \<or> ret < 0 \<and> is_transient_forward_error err)"
    using assms(3) by (auto simp: send_ok_def is_transient_forward_error_def)
  then have "snd (forward_to_srt_server os p buf s) = remove_group os p GROUPS_REMOVED_SRT_ERROR
      (counted FORWARD_ERRORS 1 (emit (Sent_Srt fd buf) (called s)))"
    using g assms(2,4) by (auto simp: forward_to_srt_server_def ensure_group_socket_def)
  then show "groups (snd (forward_to_srt_server os p buf s)) = others p s"
    "limiter (snd (forward_to_srt_server os p buf s)) = l"
    using g by (simp_all add: others_def)
qed

text \<open>A datagram that is forwarded as it is.\<close>
definition plain_data :: "byte list \<Rightarrow> bool" where
  "plain_data buf \<longleftrightarrow> (let n = int (length buf) in
     \<not> is_srtla_reg1 buf n \<and> \<not> is_srtla_reg2 buf n \<and> \<not> is_srtla_keepalive buf n \<and>
     \<not> is_srt_nak_packet buf n \<and> SRT_MIN_LEN \<le> n)"

lemma data_packet_refused:
  assumes data: "plain_data buf" and known: "find_by_address addr (groups s) = Some (p, Some i)"
    and g: "get_group p s = Some g" "0 \<le> srt_sock g"
    and fail: "\<not> send_ok ret err buf" "\<And>t. os_send os t (srt_sock g) buf = (ret, err)"
  obtains s' where "process_single_packet os buf addr ts s = Inr s'"
    "groups s' = others p s" "limiter s' = limiter s"
proof -
  define s1 where "s1 = upd_conn p i (upd_stats (on_packet_received (length buf)))
    (upd_group p (set_last_address addr) (upd_group p mark_data_seen (touch_connection p i ts s)))"
  define s2 where "s2 = (let sn = get_srt_sn buf (int (length buf)) in if sn \<ge> 0 then register_packet os p i sn s1 else s1)"
  have "process_single_packet os buf addr ts s = Inr (snd (forward_to_srt_server os p buf s2))"
    using data known
    by (simp add: process_single_packet_def plain_data_def process_known_packet_def process_srt_packet_def
        register_and_forward_def Let_def s1_def s2_def)
  moreover have "endpoint p s2 = endpoint p s"
    by (simp add: s2_def s1_def Let_def endpoint_register_packet endpoint_touch endpoint_upd_conn
        endpoint_upd set_last_address_def mark_data_seen_def)
  then have e: "endpoint p s2 = (limiter s, Some (srt_sock g))" using g by (simp add: endpoint_def)
  moreover have "others p s2 = others p s"
    by (simp add: s2_def s1_def Let_def keeps_others mark_data_seen.keeps_rest)
  ultimately show thesis using that forward_refused [OF e g(2) fail] by simp
qed

end
