(* ===== verification/Client_Packets.thy ===== *)
theory Client_Packets
  imports Isolation
begin

text \<open>
  What the datagrams of a registered connection lead to: the acknowledgement of data packets in
  batches of ten, the echo of keepalives with the telemetry they carry, and the forwarding of data.
\<close>

section \<open>Acknowledgements\<close>

function full_batches :: "nat \<Rightarrow> 'a list \<Rightarrow> 'a list list" where
  "full_batches n xs =
     (if n = 0 \<or> length xs < n then [] else take n xs # full_batches n (drop n xs))"
  by pat_completeness auto
termination by (relation "measure (\<lambda>(n, xs). length xs)") auto

declare full_batches.simps [simp del]

definition noted :: "connection \<Rightarrow> u32 list" where
  "noted c = take (nat (recv_idx c)) (recv_log c)"

definition counting :: "connection \<Rightarrow> bool" where
  "counting c \<longleftrightarrow> length (recv_log c) = RECV_ACK_INT \<and> 0 \<le> recv_idx c \<and> recv_idx c < int RECV_ACK_INT"

lemma noted_log_packet:
  assumes "counting c"
  shows "noted (log_packet sn c) = noted c @ [word_of_int sn]" "recv_idx (log_packet sn c) = recv_idx c + 1"
    "address (log_packet sn c) = address c" "length (recv_log (log_packet sn c)) = RECV_ACK_INT"
proof -
  define n where "n = nat (recv_idx c)"
  have n: "recv_idx c = int n" "n < length (recv_log c)" "length (recv_log c) = RECV_ACK_INT"
    using assms by (auto simp: n_def counting_def)
  have d: "log_packet sn c = c\<lparr>recv_idx := int (Suc n), recv_log := (recv_log c)[n := word_of_int sn]\<rparr>"
    using n by (simp add: log_packet_def Let_def)
  show "noted (log_packet sn c) = noted c @ [word_of_int sn]"
    using n(2) unfolding d by (simp add: noted_def n(1) take_Suc_conv_app_nth nat_add_distrib)
  show "recv_idx (log_packet sn c) = recv_idx c + 1" "address (log_packet sn c) = address c"
    "length (recv_log (log_packet sn c)) = RECV_ACK_INT"
    unfolding d using n by simp_all
qed

lemma get_conn_upd:
  "get_conn p i (upd_conn p i f s) = map_option f (get_conn p i s)"
  by (auto simp: get_conn_def upd_conn_def get_group_upd map_conn_def split: option.split)

lemma out_upd_conn [simp]: "out (upd_conn p i f s) = out s"
  by (simp add: upd_conn_def)

lemma get_conn_frame [simp]:
  "get_conn p i (emit e s) = get_conn p i s" "get_conn p i (called s) = get_conn p i s"
  "get_conn p i (counted c n s) = get_conn p i s"
  by (simp_all add: get_conn_def get_group_def)

lemma register_packet_step:
  assumes c: "get_conn p i s = Some c" "counting c"
  obtains c' where "get_conn p i (register_packet os p i sn s) = Some c'" "counting c'" "address c' = address c"
    "noted c' = (if Suc (length (noted c)) < RECV_ACK_INT then noted c @ [word_of_int sn] else [])"
    "out (register_packet os p i sn s) =
       (if Suc (length (noted c)) < RECV_ACK_INT then out s
        else out s @ [Sent_To (address c) (srtla_ack_pkt (noted c @ [word_of_int sn]))])"
proof -
  define d where "d = log_packet sn c"
  note d = noted_log_packet [OF c(2), of sn, folded d_def]
  have g: "get_conn p i (upd_conn p i (log_packet sn) s) = Some d" using c(1) by (simp add: get_conn_upd d_def)
  have len: "length (noted c) = nat (recv_idx c)" using c(2) by (auto simp: noted_def counting_def)
  show thesis
  proof (cases "Suc (length (noted c)) < RECV_ACK_INT")
    case True
    then have "recv_idx d \<noteq> int RECV_ACK_INT" using c(2) by (auto simp: d(2) len counting_def)
    then have r: "register_packet os p i sn s = upd_conn p i (log_packet sn) s"
      by (simp add: register_packet_def g)
    show thesis
      by (rule that [of d]) (use True c(2) d len in \<open>auto simp: r g counting_def\<close>)
  next
    case False
    then have full: "recv_idx d = int RECV_ACK_INT" using c(2) by (auto simp: d(2) len counting_def)
    then have log: "recv_log d = noted c @ [word_of_int sn]" using d(1,4) by (simp add: noted_def)
    have pad: "pad32 (srtla_ack_pkt (recv_log d)) = srtla_ack_pkt (recv_log d)"
      using d(4) by (simp add: pad32_def srtla_ack_pkt_def length_concat comp_def sum_list_triv RECV_ACK_INT_def)
    have conn: "get_conn p i (register_packet os p i sn s) = Some (reset_log d)"
      "out (register_packet os p i sn s) = out s @ [Sent_To (address d) (pad32 (srtla_ack_pkt (recv_log d)))]"
      using full c(1) unfolding d_def by (simp_all add: register_packet_def send_padded_def Let_def get_conn_upd)
    note ack = conn(2) [unfolded pad, unfolded log d(3)]
    have "noted (reset_log d) = []" "counting (reset_log d)" "address (reset_log d) = address c"
      using d(3,4) by (simp_all add: reset_log_def noted_def counting_def RECV_ACK_INT_def)
    with False ack conn(1) show thesis by (intro that [of "reset_log d"]) simp_all
  qed
qed

text \<open>C24. The acknowledgement log. Whatever number of data packets a connection delivers, the
  receiver sends an SRTLA ACK after every tenth and at no other time; the first lists the
  sequence numbers noted before and the next ones, each further one the ten that followed, in the
  order of arrival, and what is left over waits in the log.\<close>

theorem acks_list_packets_in_tens:
  assumes "get_conn p i s = Some c" "counting c"
  shows "out (fold (register_packet os p i) sns s) =
     out s @ map (\<lambda>sns. Sent_To (address c) (srtla_ack_pkt sns))
               (full_batches RECV_ACK_INT (noted c @ map word_of_int sns))"
  using assms
proof (induction sns arbitrary: s c)
  case Nil
  then have "length (noted c) < RECV_ACK_INT" by (auto simp: counting_def noted_def)
  then show ?case by (simp add: full_batches.simps [of _ "noted c"])
next
  case (Cons sn sns)
  obtain c' where c': "get_conn p i (register_packet os p i sn s) = Some c'" "counting c'" "address c' = address c"
    "noted c' = (if Suc (length (noted c)) < RECV_ACK_INT then noted c @ [word_of_int sn] else [])"
    "out (register_packet os p i sn s) =
       (if Suc (length (noted c)) < RECV_ACK_INT then out s
        else out s @ [Sent_To (address c) (srtla_ack_pkt (noted c @ [word_of_int sn]))])"
    by (rule register_packet_step [OF Cons.prems])
  note IH = Cons.IH [OF c'(1,2)]
  show ?case
  proof (cases "Suc (length (noted c)) < RECV_ACK_INT")
    case True
    with IH c' show ?thesis by simp
  next
    case False
    have "length (noted c) < RECV_ACK_INT" using Cons.prems(2) by (auto simp: counting_def noted_def)
    with False have l: "Suc (length (noted c)) = RECV_ACK_INT" by simp
    then have "full_batches RECV_ACK_INT (noted c @ map word_of_int (sn # sns)) =
        (noted c @ [word_of_int sn]) # full_batches RECV_ACK_INT (map word_of_int sns)"
      by (subst full_batches.simps) (simp add: RECV_ACK_INT_def Suc_diff_le)
    with IH c' False show ?thesis by simp
  qed
qed

section \<open>Keepalives\<close>

lemma get_conn_touch:
  "get_conn p i s = Some c \<Longrightarrow> get_conn p i (touch_connection p i ts s) = Some (touch ts c)"
  by (simp add: touch_connection_def Let_def get_conn_upd)

lemma touch_connection_env:
  "tick (touch_connection p i ts s) = tick s" "out (touch_connection p i ts s) = out s"
  by (simp_all add: touch_connection_def Let_def upd_conn_def split: option.split)

lemma get_conn_send [simp]: "get_conn p i (snd (send_padded os a b s)) = get_conn p i s"
  by (simp add: send_padded_def)

text \<open>A keepalive of a registered connection is echoed byte for byte to its source and sent
  nowhere else; no group but the one of the connection changes. The connection counts as heard from,
  and an extended keepalive, and only such a one, updates its telemetry with the fields it carries and
  the time of receipt.\<close>

lemma keepalive_echoed:
  assumes "find_by_address addr (groups s) = Some (p, Some i)" and c: "get_conn p i s = Some c"
    and ka: "is_srtla_keepalive buf (int (length buf))"
  shows "\<exists>s' c'. process_single_packet os buf addr ts s = Inr s' \<and>
     out s' = out s @ [Sent_To addr (pad32 buf)] \<and> others p s' = others p s \<and>
     get_conn p i s' = Some c' \<and> last_rcvd c' = ts \<and> noted c' = noted c \<and>
     stats c' =
       (case parse_keepalive_conn_info buf (int (length buf)) of
          None \<Rightarrow> stats c
        | Some info \<Rightarrow> update_connection_telemetry info
            (case os_seconds os (tick s) of None \<Rightarrow> 0 | Some t \<Rightarrow> t) (stats c))"
proof -
  have "\<not> is_srtla_reg1 buf (int (length buf))" "\<not> is_srtla_reg2 buf (int (length buf))"
    using ka by (auto simp: is_srtla_keepalive_def is_srtla_reg1_def is_srtla_reg2_def const_defs split: if_splits)
  with assms have p: "process_single_packet os buf addr ts s =
      Inr (handle_keepalive os p i addr buf (touch_connection p i ts s))"
    by (simp add: process_single_packet_def process_known_packet_def)
  have o: "out (handle_keepalive os p i addr buf (touch_connection p i ts s)) = out s @ [Sent_To addr (pad32 buf)]"
    by (auto simp: handle_keepalive_def Let_def split_def send_padded_def touch_connection_env split: option.split)
  define f where "f = (case parse_keepalive_conn_info buf (int (length buf)) of
      None \<Rightarrow> (\<lambda>c. c)
    | Some info \<Rightarrow> upd_stats (update_connection_telemetry info
        (case os_seconds os (tick s) of None \<Rightarrow> 0 | Some t \<Rightarrow> t)))"
  have g: "get_conn p i (handle_keepalive os p i addr buf (touch_connection p i ts s)) = Some (f (touch ts c))"
    by (auto simp: handle_keepalive_def Let_def split_def touch_connection_env get_conn_upd get_conn_touch [OF c] f_def
        split: option.split)
  moreover have "last_rcvd (f (touch ts c)) = ts" "noted (f (touch ts c)) = noted c"
    "stats (f (touch ts c)) = (case parse_keepalive_conn_info buf (int (length buf)) of
        None \<Rightarrow> stats c
      | Some info \<Rightarrow> update_connection_telemetry info
          (case os_seconds os (tick s) of None \<Rightarrow> 0 | Some t \<Rightarrow> t) (stats c))"
    by (simp_all add: f_def touch_def noted_def upd_stats_def split: option.split)
  moreover have "others p (handle_keepalive os p i addr buf (touch_connection p i ts s)) = others p s"
    by (simp add: keeps_others)
  ultimately show ?thesis unfolding p using o by blast
qed

section \<open>Data\<close>

text \<open>What of the group \<open>p\<close> the traffic of its connections leaves alone.\<close>
definition front :: "nat \<Rightarrow> receiver \<Rightarrow> (int \<times> bool \<times> sockaddr_storage) option" where
  "front p s = map_option (\<lambda>g. (srt_sock g, data_seen g, last_addr g)) (get_group p s)"

text \<open>The other connections of the group.\<close>
definition siblings :: "nat \<Rightarrow> nat \<Rightarrow> receiver \<Rightarrow> (connection list \<times> connection list) option" where
  "siblings p i s = map_option (\<lambda>g. (take i (conns g), drop (Suc i) (conns g))) (get_group p s)"

lemma siblings_upd_conn: "siblings p i (upd_conn p i f s) = siblings p i s"
  by (simp add: siblings_def upd_conn_def get_group_upd map_conn_def option.map_comp comp_def take_update_cancel)

lemma siblings_frame:
  "siblings p i (emit e s) = siblings p i s" "siblings p i (called s) = siblings p i s"
  "siblings p i (counted c n s) = siblings p i s" "siblings p i (snd (send_padded os a b s)) = siblings p i s"
  "siblings p i (upd_group p mark_data_seen s) = siblings p i s"
  "siblings p i (upd_group p (set_last_address a) s) = siblings p i s"
  by (simp_all add: siblings_def get_group_def [of _ "emit _ _"] get_group_def [of _ "called _"] get_group_def [of _ "counted _ _ _"]
      send_padded_def get_group_upd option.map_comp comp_def mark_data_seen_def set_last_address_def)

lemma siblings_register_packet: "siblings p i (register_packet os p i sn s) = siblings p i s"
  by (auto simp: register_packet_def Let_def split_def siblings_upd_conn siblings_frame split: option.splits)

lemma siblings_touch: "siblings p i (touch_connection p i ts s) = siblings p i s"
  by (auto simp: touch_connection_def Let_def siblings_upd_conn siblings_frame split: option.splits)

lemma siblings_conns:
  assumes "siblings p i s' = siblings p i s" "get_group p s = Some g" "get_conn p i s = Some c"
    and "get_group p s' = Some g'" "get_conn p i s' = Some c'"
  shows "conns g' = (conns g)[i := c']"
proof -
  have i: "i < length (conns g)" "i < length (conns g')" "conns g' ! i = c'"
    using assms(2-5) by (auto simp: get_conn_def split: if_splits)
  then have "conns g' = take i (conns g') @ c' # drop (Suc i) (conns g')" using id_take_nth_drop by metis
  moreover have "take i (conns g') = take i (conns g)" "drop (Suc i) (conns g') = drop (Suc i) (conns g)"
    using assms(1,2,4) by (simp_all add: siblings_def)
  ultimately show ?thesis using i(1) by (simp add: upd_conv_take_nth_drop)
qed

lemma front_upd_conn: "front p (upd_conn q i f s) = front p s"
  by (simp add: front_def upd_conn_def get_group_upd map_conn_def option.map_comp comp_def split: if_split)

lemma front_frame:
  "front p (emit e s) = front p s" "front p (called s) = front p s" "front p (counted c n s) = front p s"
  "front p (snd (send_padded os a b s)) = front p s"
  by (simp_all add: front_def get_group_def send_padded_def)

lemma front_register_packet: "front p (register_packet os q i sn s) = front p s"
  by (auto simp: register_packet_def Let_def split_def front_upd_conn front_frame split: option.splits)

lemma front_touch: "front p (touch_connection q i ts s) = front p s"
  by (auto simp: touch_connection_def Let_def front_upd_conn front_frame split: option.splits)

lemma forward_sent:
  assumes "front p s = Some (fd, seen, a)" "0 \<le> fd" "\<And>t. os_send os t fd buf = (int (length buf), err)"
  defines "s' \<equiv> snd (forward_to_srt_server os p buf s)"
  shows "out s' = out s @ [Sent_Srt fd buf]" "groups s' = groups s"
proof -
  obtain g where g: "get_group p s = Some g" "srt_sock g = fd" using assms(1) by (auto simp: front_def)
  then show "out s' = out s @ [Sent_Srt fd buf]" "groups s' = groups s"
    using assms(2,3) by (simp_all add: s'_def forward_to_srt_server_def ensure_group_socket_def)
qed

lemma register_data:
  fixes os :: os and sn :: int
  assumes "get_conn p i s = Some c" "counting c"
  defines "s' \<equiv> if 0 \<le> sn then register_packet os p i sn s else s"
  obtains c' where "get_conn p i s' = Some c'" "counting c'" "address c' = address c"
    "noted c' = (if sn < 0 then noted c else if Suc (length (noted c)) = RECV_ACK_INT then [] else noted c @ [word_of_int sn])"
    "out s' = out s @ (if 0 \<le> sn \<and> Suc (length (noted c)) = RECV_ACK_INT
       then [Sent_To (address c) (srtla_ack_pkt (noted c @ [word_of_int sn]))] else [])"
proof -
  have full: "Suc (length (noted c)) < RECV_ACK_INT \<longleftrightarrow> Suc (length (noted c)) \<noteq> RECV_ACK_INT"
    using assms(2) by (auto simp: counting_def noted_def)
  obtain c' where c': "get_conn p i (register_packet os p i sn s) = Some c'" "counting c'" "address c' = address c"
    "noted c' = (if Suc (length (noted c)) < RECV_ACK_INT then noted c @ [word_of_int sn] else [])"
    "out (register_packet os p i sn s) =
       (if Suc (length (noted c)) < RECV_ACK_INT then out s
        else out s @ [Sent_To (address c) (srtla_ack_pkt (noted c @ [word_of_int sn]))])"
    by (rule register_packet_step [OF assms(1,2)])
  show thesis
    using assms(1,2) c' by (intro that [of "if 0 \<le> sn then c' else c"]) (simp_all add: s'_def full)
qed

lemma data_packet_step:
  assumes data: "plain_data buf" and known: "find_by_address addr (groups s) = Some (p, Some i)"
    and g: "get_group p s = Some g" "0 \<le> srt_sock g" and c: "get_conn p i s = Some c" "counting c"
    and sent: "\<And>t. os_send os t (srt_sock g) buf = (int (length buf), err)"
  defines "sn \<equiv> get_srt_sn buf (int (length buf))"
  obtains s' g' c' where "process_single_packet os buf addr ts s = Inr s'" "others p s' = others p s"
    "out s' = out s @ (if 0 \<le> sn \<and> Suc (length (noted c)) = RECV_ACK_INT
                       then [Sent_To (address c) (srtla_ack_pkt (noted c @ [word_of_int sn]))] else []) @
       [Sent_Srt (srt_sock g) buf]"
    "get_group p s' = Some g'" "data_seen g'" "last_addr g' = addr" "srt_sock g' = srt_sock g"
    "get_conn p i s' = Some c'" "counting c'" "address c' = address c" "conns g' = (conns g)[i := c']"
    "noted c' = (if sn < 0 then noted c else if Suc (length (noted c)) = RECV_ACK_INT then [] else noted c @ [word_of_int sn])"
proof -
  define s1 where "s1 = upd_conn p i (upd_stats (on_packet_received (length buf)))
    (upd_group p (set_last_address addr) (upd_group p mark_data_seen (touch_connection p i ts s)))"
  define s2 where "s2 = (if sn \<ge> 0 then register_packet os p i sn s1 else s1)"
  have res: "process_single_packet os buf addr ts s = Inr (snd (forward_to_srt_server os p buf s2))"
    using data known
    by (simp add: process_single_packet_def plain_data_def process_known_packet_def process_srt_packet_def
        register_and_forward_def Let_def s1_def s2_def sn_def)
  define c1 where "c1 = upd_stats (on_packet_received (length buf)) (touch ts c)"
  have c1: "counting c1" "noted c1 = noted c" "address c1 = address c"
    using c(2) by (auto simp: c1_def upd_stats_def touch_def counting_def noted_def)
  have "get_conn p i (upd_group p (set_last_address addr) (upd_group p mark_data_seen s')) = get_conn p i s'" for s'
    by (simp add: get_conn_def get_group_upd set_last_address_def mark_data_seen_def split: option.split)
  then have s1: "get_conn p i s1 = Some c1" "out s1 = out s"
    by (simp_all add: s1_def get_conn_upd get_conn_touch [OF c(1)] c1_def touch_connection_env)
  have f1: "front p s1 = Some (srt_sock g, True, addr)"
    using g(1) front_touch [of p p i ts s]
    by (auto simp: s1_def front_upd_conn) (auto simp: front_def get_group_upd set_last_address_def mark_data_seen_def)
  obtain c2 where c2: "get_conn p i s2 = Some c2" "counting c2" "address c2 = address c1"
    "noted c2 = (if sn < 0 then noted c1 else if Suc (length (noted c1)) = RECV_ACK_INT then [] else noted c1 @ [word_of_int sn])"
    "out s2 = out s1 @ (if 0 \<le> sn \<and> Suc (length (noted c1)) = RECV_ACK_INT
       then [Sent_To (address c1) (srtla_ack_pkt (noted c1 @ [word_of_int sn]))] else [])"
    unfolding s2_def by (rule register_data [OF s1(1) c1(1)])
  have f2: "front p s2 = Some (srt_sock g, True, addr)" by (simp add: s2_def front_register_packet f1)
  note fwd = forward_sent [OF f2 g(2) sent]
  have rest: "others p s2 = others p s" "siblings p i s2 = siblings p i s"
    by (simp_all add: s2_def s1_def keeps_others mark_data_seen.keeps_rest siblings_register_packet siblings_touch
        siblings_upd_conn siblings_frame)
  obtain g' where g': "get_group p s2 = Some g'" "data_seen g'" "last_addr g' = addr" "srt_sock g' = srt_sock g"
    using f2 by (auto simp: front_def)
  have "conns g' = (conns g)[i := c2]" by (rule siblings_conns [OF rest(2) g(1) c(1) g'(1) c2(1)])
  with c2 fwd rest(1) g' show thesis
    unfolding c1(2,3) s1(2)
    by (intro that [of "snd (forward_to_srt_server os p buf s2)" g' c2, OF res])
      (simp_all add: others_def get_conn_def get_group_def)
qed

text \<open>A data packet of a registered connection reaches the SRT server: it is written, once and byte for byte,
  to the SRT socket of the group of its source and to no other, and every group but this one is
  unchanged. The group has now streamed and its answers go to the source of the packet;
  and the sequence number is noted, with an SRTLA ACK to the connection exactly when it is the tenth.\<close>

lemma data_packet_forwarded:
  assumes data: "plain_data buf" and known: "find_by_address addr (groups s) = Some (p, Some i)"
    and g: "get_group p s = Some g" "0 \<le> srt_sock g" and c: "get_conn p i s = Some c" "counting c"
    and sent: "\<And>t. os_send os t (srt_sock g) buf = (int (length buf), err)"
  defines "sn \<equiv> get_srt_sn buf (int (length buf))"
  shows "\<exists>s' g' c'. process_single_packet os buf addr ts s = Inr s' \<and> others p s' = others p s \<and>
     out s' = out s @ (if 0 \<le> sn \<and> Suc (length (noted c)) = RECV_ACK_INT
                       then [Sent_To (address c) (srtla_ack_pkt (noted c @ [word_of_int sn]))] else []) @
       [Sent_Srt (srt_sock g) buf] \<and>
     get_group p s' = Some g' \<and> data_seen g' \<and> last_addr g' = addr \<and> srt_sock g' = srt_sock g \<and>
     get_conn p i s' = Some c' \<and> counting c' \<and>
     noted c' = (if sn < 0 then noted c else if Suc (length (noted c)) = RECV_ACK_INT then [] else noted c @ [word_of_int sn])"
proof -
  obtain s' g' c' where "process_single_packet os buf addr ts s = Inr s'" "others p s' = others p s"
    "out s' = out s @ (if 0 \<le> sn \<and> Suc (length (noted c)) = RECV_ACK_INT
                       then [Sent_To (address c) (srtla_ack_pkt (noted c @ [word_of_int sn]))] else []) @
       [Sent_Srt (srt_sock g) buf]"
    "get_group p s' = Some g'" "data_seen g'" "last_addr g' = addr" "srt_sock g' = srt_sock g"
    "get_conn p i s' = Some c'" "counting c'"
    "noted c' = (if sn < 0 then noted c else if Suc (length (noted c)) = RECV_ACK_INT then [] else noted c @ [word_of_int sn])"
    unfolding sn_def by (rule data_packet_step [OF data known g c sent])
  then show ?thesis by blast
qed

end
