(* ===== verification/Handshake.thy ===== *)
theory Handshake
  imports Client_Packets
begin

text \<open>
  The registration of a client: what a REG1 and the REG2 that follows it achieve when the kernel
  sends the replies, and which failures the handlers of client packets can end with.
\<close>

section \<open>A group registration that succeeds\<close>

text \<open>A kernel that opens the random device, reads what is asked for, and sends every reply.\<close>
definition replies_sent :: "os \<Rightarrow> bool" where
  "replies_sent os \<longleftrightarrow> (\<forall>t. os_fopen os t) \<and> (\<forall>t n. length (os_read os t n) = n) \<and>
     (\<forall>t a b. os_sendto os t a b = int (length b))"

lemma read_random_ok:
  assumes "\<forall>t n. length (os_read os t n) = n"
  shows "\<exists>r. read_random os len True [] s = (Some r, s) \<or> read_random os len True [] s = (Some r, called s)"
proof (cases "len = 0")
  case False
  let ?r = "os_read os (tick s) len"
  have l: "length ?r = len" using assms by blast
  have "read_random os len True ?r (called s) = (Some ?r, called s)"
    by (subst read_random.simps) (simp add: l)
  moreover have "?r \<noteq> []" using l False by auto
  ultimately have "read_random os len True [] s = (Some ?r, called s)"
    using l False by (subst read_random.simps) (simp add: Let_def)
  then show ?thesis by blast
next
  case True
  then have "read_random os len True [] s = (Some [], s)" by (subst read_random.simps) simp
  then show ?thesis by blast
qed

lemma send_padded_ok: "replies_sent os \<Longrightarrow>
    send_padded os addr buf s = (int (length buf), emit (Sent_To addr (pad32 buf)) (called s))"
  by (simp add: send_padded_def pad_sendto_def replies_sent_def pad32_def)

lemma admit_ok:
  assumes os: "replies_sent os" and len: "length buf = 258"
  obtains g s' where "admit os addr buf ts s = Inr s'" "groups s' = groups s @ [g]" "gptr g = next_ptr s"
    "limiter s' = limiter s" "out s' = out s @ [Sent_To addr (reg2_packet g)]"
    "length (gid g) = 256" "take 128 (gid g) = take 128 (drop 2 buf)" "conns g = []" "last_addr g = addr"
proof -
  obtain rb s1 where r: "get_random_bytes os (SRTLA_ID_LEN div 2) s = (Some rb, s1)" "out s1 = out s"
    using read_random_ok [of os "SRTLA_ID_LEN div 2" "called s"] os
    by (auto simp: get_random_bytes_def replies_sent_def)
  have lrb: "length rb = 128" using get_random_bytes_length [of os "SRTLA_ID_LEN div 2" s rb] r by (simp add: const_defs)
  have core: "same_core s s1" using get_random_bytes_core [of s os "SRTLA_ID_LEN div 2"] r by simp
  define g where "g = set_last_address addr (new_group (next_ptr s1) (drop 2 buf) rb ts)"
  define s2 where "s2 = emit (Sent_To addr (pad32 (reg2_packet g))) (called (s1\<lparr>next_ptr := Suc (next_ptr s1)\<rparr>))"
  have g: "length (gid g) = 256" "take 128 (gid g) = take 128 (drop 2 buf)" "conns g = []" "last_addr g = addr"
    "gptr g = next_ptr s"
    using len lrb core by (simp_all add: g_def set_last_address_def new_group_def const_defs same_core_def)
  have "admit os addr buf ts s = Inr (counted GROUP_REGISTRATIONS 1 (add_group g s2))"
    using r(1) g(1)
    by (simp add: admit_def send_padded_ok [OF os] s2_def g_def [symmetric] Let_def SRTLA_TYPE_REG2_LEN_def reg2_packet_def)
  then show thesis
    by (rule that) (use g r(2) core in \<open>simp_all add: s2_def add_group_def same_core_def pad32_def reg2_packet_def\<close>)
qed

section \<open>The handshake\<close>

lemma reg2_packet_type: "length (gid g) = 256 \<Longrightarrow>
    is_srtla_reg2 (reg2_packet g) (int (length (reg2_packet g))) \<and>
    \<not> is_srtla_reg1 (reg2_packet g) (int (length (reg2_packet g)))"
  by (simp add: is_srtla_reg2_def is_srtla_reg1_def reg2_packet_def get_srt_type_def wire_simps const_defs)

lemma find_own_id:
  "find_group_by_id (gid g) gs = None \<Longrightarrow> find_group_by_id (gid g) (gs @ [g]) = Some g"
  by (induction gs) (auto simp: find_group_by_id_def compare_bytes split: if_splits)

lemma find_by_address_append:
  "find_by_address a gs = None \<Longrightarrow> find_by_address a (gs @ hs) = find_by_address a hs"
  by (induction gs) (auto split: option.splits if_splits)

text \<open>
  A REG2 from an address that is no connection yet, for a group at the end of the table whose
  identifier no other group has: it is answered by a REG3 and the address becomes a connection.
\<close>

lemma join_group:
  assumes os: "replies_sent os" and s: "groups s = gs @ [g]" "\<forall>h\<in>set gs. gptr h \<noteq> gptr g"
    and g: "find_conn a (conns g) = None" "length (conns g) < MAX_CONNS_PER_GROUP" "length (gid g) = 256"
    and free: "find_group_by_id (gid g) gs = None" "find_by_address a gs = None"
  obtains s' g' where "process_single_packet os (reg2_packet g) a ts s = Inr s'"
    "groups s' = gs @ [g']" "gptr g' = gptr g" "gid g' = gid g" "conns g' = conns g @ [new_connection a ts]"
    "Sent_To a (pad32 (put_be16 SRTLA_TYPE_REG3)) \<in> set (drop (length (out s)) (out s'))" "grows s s'"
proof -
  let ?pkt = "reg2_packet g"
  have d: "drop 2 ?pkt = gid g" by (simp add: reg2_packet_def)
  have id: "find_group_by_id (drop 2 ?pkt) (groups s) = Some g" unfolding d s using free(1) by (rule find_own_id)
  have fa: "find_by_address a (groups s) = find_by_address a [g]" unfolding s by (rule find_by_address_append [OF free(2)])
  have ok: "\<not> reg2_mismatch a g s" "\<not> reg2_known a s"
    using g(1) by (simp_all add: reg2_mismatch_def reg2_known_def fa)
  define s1 where "s1 = emit (Sent_To a (pad32 (put_be16 SRTLA_TYPE_REG3))) (called s)"
  define s2 where "s2 = reg2_join os a ts g False s1"
  have "register_connection os a ?pkt ts s = s2"
    using ok g(2) by (simp add: register_connection_eq [OF id] send_padded_ok [OF os] s2_def s1_def)
  then have p: "process_single_packet os ?pkt a ts s = Inr s2"
    using reg2_packet_type [OF g(3)] by (simp add: process_single_packet_def)
  have gs: "map (\<lambda>h. if gptr h = gptr g then f h else h) gs = gs" for f
    using s(2) by (simp add: map_idI)
  have "groups s2 = gs @ [set_last_address a (add_connection (new_connection a ts) g)]"
    by (simp add: s2_def s1_def reg2_join_def Let_def write_socket_info_file_core [THEN same_core_groups] s(1) gs
        add_connection_def)
  moreover have "grows s1 s2"
    by (auto simp: grows_def s2_def reg2_join_def Let_def write_socket_info_file_def split_def)
  then have "Sent_To a (pad32 (put_be16 SRTLA_TYPE_REG3)) \<in> set (drop (length (out s)) (out s2))" "grows s s2"
    by (auto simp: grows_def s1_def)
  ultimately show thesis
    using that p by (simp add: set_last_address_def add_connection_def)
qed

lemma join_batch:
  assumes os: "replies_sent os" and gs: "\<forall>h\<in>set gs. gptr h \<noteq> gptr g" "find_group_by_id (gid g) gs = None"
    and id: "length (gid g) = 256"
    and as: "distinct (map addr_key as)" "\<forall>a\<in>set as. find_by_address a gs = None"
  shows "groups s = gs @ [g] \<Longrightarrow> \<forall>a\<in>set as. find_conn a (conns g) = None \<Longrightarrow>
     length (conns g) + length as \<le> MAX_CONNS_PER_GROUP \<Longrightarrow>
     \<exists>s' g'. process_batch os ts (map (\<lambda>a. (a, reg2_packet g)) as) s = Inr s' \<and> grows s s' \<and>
       groups s' = gs @ [g'] \<and> gptr g' = gptr g \<and> gid g' = gid g \<and>
       conns g' = conns g @ map (\<lambda>a. new_connection a ts) as \<and>
       (\<forall>a\<in>set as. Sent_To a (pad32 (put_be16 SRTLA_TYPE_REG3)) \<in> set (drop (length (out s)) (out s')))"
  using assms
proof (induction as arbitrary: s g)
  case Nil
  then show ?case by (intro exI [of _ s] exI [of _ g]) (simp add: grows_def)
next
  case (Cons a as)
  define s0 where "s0 = counted BYTES_RECEIVED (of_nat (length (reg2_packet g))) (counted PACKETS_RECEIVED 1 s)"
  have s0: "groups s0 = gs @ [g]" "out s0 = out s" using Cons.prems(1) by (simp_all add: s0_def)
  have "find_conn a (conns g) = None" "length (conns g) < MAX_CONNS_PER_GROUP" "find_by_address a gs = None"
    using Cons.prems by simp_all
  note prem = Cons.prems(4) s0(1) Cons.prems(5) this(1,2) Cons.prems(7,6) this(3)
  obtain s1 g1 where s1: "process_single_packet os (reg2_packet g) a ts s0 = Inr s1"
    "groups s1 = gs @ [g1]" "gptr g1 = gptr g" "gid g1 = gid g" "conns g1 = conns g @ [new_connection a ts]"
    "Sent_To a (pad32 (put_be16 SRTLA_TYPE_REG3)) \<in> set (drop (length (out s0)) (out s1))" "grows s0 s1"
    by (rule join_group [OF prem])
  have pk: "reg2_packet g1 = reg2_packet g" by (simp add: reg2_packet_def s1(4))
  have new: "\<forall>b\<in>set as. find_conn b (conns g1) = None"
    using Cons.prems(2,8) unfolding s1(5) find_conn_None
    by (auto simp: address_new_connection) (metis imageI)
  obtain s' g' where r: "process_batch os ts (map (\<lambda>a. (a, reg2_packet g)) as) s1 = Inr s'" "grows s1 s'"
    "groups s' = gs @ [g']" "gptr g' = gptr g" "gid g' = gid g"
    "conns g' = conns g1 @ map (\<lambda>a. new_connection a ts) as"
    "\<forall>a\<in>set as. Sent_To a (pad32 (put_be16 SRTLA_TYPE_REG3)) \<in> set (drop (length (out s1)) (out s'))"
    using Cons.IH [of s1 g1, OF s1(2) new] Cons.prems s1(3-5) unfolding pk by auto
  have len: "0 < length (reg2_packet g)" "length (reg2_packet g) \<le> MTU"
    using Cons.prems(7) by (simp_all add: reg2_packet_def MTU_def)
  have "process_batch os ts (map (\<lambda>a. (a, reg2_packet g)) (a # as)) s = Inr s'"
    using len s1(1) r(1) by (simp add: s0_def [symmetric])
  moreover have "grows s s'" using s1(7) r(2) s0(2) by (auto simp: grows_def)
  moreover have "\<forall>b\<in>set (a # as). Sent_To b (pad32 (put_be16 SRTLA_TYPE_REG3)) \<in> set (drop (length (out s)) (out s'))"
    using s1(6,7) r(2,7) s0(2) by (auto simp: grows_def)
  ultimately show ?case using r(3-6) s1(5) by auto
qed

text \<open>The position of an address in a list of fresh connections.\<close>

lemma find_conn_new:
  "distinct (map addr_key as) \<Longrightarrow> k < length as \<Longrightarrow> find_conn (as ! k) (map (\<lambda>a. new_connection a ts) as) = Some k"
proof (induction as arbitrary: k)
  case (Cons a as)
  then show ?case
    by (cases k) (auto simp: addresses_equal_key address_new_connection dest: nth_mem)
qed simp

lemma joined:
  assumes "replies_sent os" "\<forall>h\<in>set gs. gptr h \<noteq> gptr g" "find_group_by_id (gid g) gs = None"
    and "length (gid g) = 256" "distinct (map addr_key as)" "\<forall>a\<in>set as. find_by_address a gs = None"
    and "groups s = gs @ [g]" "conns g = []" "length as \<le> MAX_CONNS_PER_GROUP"
  shows "\<exists>s2. process_batch os ts (map (\<lambda>a. (a, reg2_packet g)) as) s = Inr s2 \<and>
      (\<forall>k < length as. find_by_address (as ! k) (groups s2) = Some (gptr g, Some k) \<and>
         Sent_To (as ! k) (pad32 (put_be16 SRTLA_TYPE_REG3)) \<in> set (drop (length (out s)) (out s2))) \<and>
      (\<exists>g2. groups s2 = gs @ [g2] \<and> gptr g2 = gptr g \<and> map address (conns g2) = as)"
proof -
  obtain s2 g2 where s2: "process_batch os ts (map (\<lambda>a. (a, reg2_packet g)) as) s = Inr s2"
    "groups s2 = gs @ [g2]" "gptr g2 = gptr g" "conns g2 = map (\<lambda>a. new_connection a ts) as"
    "\<forall>a\<in>set as. Sent_To a (pad32 (put_be16 SRTLA_TYPE_REG3)) \<in> set (drop (length (out s)) (out s2))"
    using join_batch [OF assms(1-6), of s ts] assms(7-9) by auto
  have "find_by_address (as ! k) (groups s2) = Some (gptr g, Some k)" if k: "k < length as" for k
    using find_conn_new [OF assms(5) k, of ts] assms(6) k by (simp add: s2(2-4) find_by_address_append)
  moreover have "map address (conns g2) = as" by (simp add: s2(4) comp_def address_new_connection)
  ultimately show ?thesis using s2(1-3,5) by auto
qed

text \<open>A REG1 that is admitted.\<close>

lemma reg1_admitted:
  assumes "wf_receiver s" "replies_sent os" "length (groups s) < MAX_GROUPS"
    and reg1: "is_srtla_reg1 reg (int (length reg))"
    and "find_by_address addr (groups s) = None" "\<not> is_blocked addr ts (limiter s)"
  obtains g s1 where "process_single_packet os reg addr ts s = Inr s1" "groups s1 = groups s @ [g]"
    "out s1 = out s @ [Sent_To addr (reg2_packet g)]" "length (gid g) = 256"
    "take 128 (gid g) = take 128 (drop 2 reg)" "conns g = []" "\<forall>h\<in>set (groups s). gptr h \<noteq> gptr g"
proof -
  have len: "length reg = 258" using reg1 by (simp add: is_srtla_reg1_def SRTLA_TYPE_REG1_LEN_def split: if_splits)
  obtain g s1 where s1: "admit os addr reg ts s = Inr s1" "groups s1 = groups s @ [g]" "gptr g = next_ptr s"
    "out s1 = out s @ [Sent_To addr (reg2_packet g)]"
    "length (gid g) = 256" "take 128 (gid g) = take 128 (drop 2 reg)" "conns g = []"
    by (rule admit_ok [OF assms(2) len])
  moreover have "process_single_packet os reg addr ts s = Inr s1"
    using assms(3-6) s1(1) by (simp add: process_single_packet_def register_group_eq make_room_def)
  moreover have "\<forall>h\<in>set (groups s). gptr h \<noteq> gptr g"
    using assms(1) by (auto simp: s1(3) wf_receiver_def wf_groups_def)
  ultimately show thesis using that by blast
qed

text \<open>C3. The registration handshake completes. When the kernel sends the replies, a REG1 from
  an address that is unknown and not blocked, while the table has room, adds one group at the end of
  the table and is answered by a REG2 that carries the identifier of that group, whose first half is
  the one the client chose. REG2 datagrams with this identifier from up to 16 different addresses that
  no group owns, among them the one of the REG1 or not, are then each answered by a REG3, and the
  addresses are the connections of that group in the order of the datagrams, so that what they send
  is accepted; only an identifier that was in use already would prevent this.\<close>

theorem registration_handshake:
  assumes "wf_receiver s" "replies_sent os" "length (groups s) < MAX_GROUPS"
    and "is_srtla_reg1 reg (int (length reg))"
    and "find_by_address addr (groups s) = None" "\<not> is_blocked addr ts (limiter s)"
  shows "\<exists>g s1. process_single_packet os reg addr ts s = Inr s1 \<and> groups s1 = groups s @ [g] \<and>
     out s1 = out s @ [Sent_To addr (put_be16 SRTLA_TYPE_REG2 @ gid g)] \<and>
     length (gid g) = SRTLA_ID_LEN \<and> take (SRTLA_ID_LEN div 2) (gid g) = take (SRTLA_ID_LEN div 2) (drop 2 reg) \<and>
     (\<forall>as ts2. find_group_by_id (gid g) (groups s) = None \<and> length as \<le> MAX_CONNS_PER_GROUP \<and>
          distinct (map addr_key as) \<and> (\<forall>a\<in>set as. find_by_address a (groups s) = None) \<longrightarrow>
        (\<exists>s2. process_batch os ts2 (map (\<lambda>a. (a, put_be16 SRTLA_TYPE_REG2 @ gid g)) as) s1 = Inr s2 \<and>
           (\<forall>k < length as. find_by_address (as ! k) (groups s2) = Some (gptr g, Some k) \<and>
              Sent_To (as ! k) (pad32 (put_be16 SRTLA_TYPE_REG3)) \<in> set (drop (length (out s1)) (out s2)))))"
proof -
  obtain g s1 where s1: "process_single_packet os reg addr ts s = Inr s1" "groups s1 = groups s @ [g]"
    "out s1 = out s @ [Sent_To addr (reg2_packet g)]" "length (gid g) = 256"
    "take 128 (gid g) = take 128 (drop 2 reg)" "conns g = []" "\<forall>h\<in>set (groups s). gptr h \<noteq> gptr g"
    by (rule reg1_admitted [OF assms])
  have "\<exists>s2. process_batch os ts2 (map (\<lambda>a. (a, reg2_packet g)) as) s1 = Inr s2 \<and>
      (\<forall>k < length as. find_by_address (as ! k) (groups s2) = Some (gptr g, Some k) \<and>
         Sent_To (as ! k) (pad32 (put_be16 SRTLA_TYPE_REG3)) \<in> set (drop (length (out s1)) (out s2)))"
    if "find_group_by_id (gid g) (groups s) = None" "length as \<le> MAX_CONNS_PER_GROUP"
      "distinct (map addr_key as)" "\<forall>a\<in>set as. find_by_address a (groups s) = None" for as ts2
    using joined [OF assms(2) s1(7) that(1) s1(4) that(3,4) s1(2,6) that(2)] by blast
  then show ?thesis
    using s1 by (intro exI [of _ g] exI [of _ s1]) (simp add: reg2_packet_def SRTLA_ID_LEN_def)
qed

section \<open>Failures\<close>

lemma admit_failure: "admit os addr buf ts s = Inl e \<Longrightarrow> e = Runtime_Error"
  by (simp add: admit_def Let_def split_def split: option.splits if_splits)

lemma register_group_failure: "register_group os addr buf ts s = Inl e \<Longrightarrow> e = Runtime_Error"
  by (cases "make_room os s") (auto simp add: register_group_eq split: if_splits intro: admit_failure)

lemma process_single_packet_failure: 
  assumes "process_single_packet os buf addr ts s = Inl e" shows "e = Runtime_Error"
proof (cases "is_srtla_reg1 buf (int (length buf))")
  case True
  then show ?thesis using assms register_group_failure by (simp add: process_single_packet_def)
next
  case False
  then show ?thesis using assms by (simp add: process_single_packet_def split: if_splits option.splits prod.splits)
qed

lemma process_batch_failure: "process_batch os ts msgs s = Inl e \<Longrightarrow> e = Runtime_Error"
proof (induction msgs arbitrary: s)
  case (Cons msg msgs)
  then show ?case
    by (cases msg) (auto simp: Let_def dest: process_single_packet_failure split: if_splits sum.splits)
qed simp

lemma process_packets_failure: "process_packets os ts s = Inl e \<Longrightarrow> e = Runtime_Error"
  by (simp add: process_packets_def split: option.splits) (rule process_batch_failure)

end
