(* ===== verification/Exporter.thy ===== *)
theory Exporter
  imports Lifecycle
begin

text \<open>
  The Prometheus exporter (\<open>metrics/prometheus.cpp\<close>): the text exposition and the serving of
  scrapes from the main loop. \<open>inet_ntop\<close> for IPv6 is the parameter \<open>os_ntop6\<close>; its IPv4 format
  is the dotted quad.
\<close>

section \<open>Text\<close>

definition nl :: string where "nl = [CHR 0x0A]"
definition crlf :: string where "crlf = [CHR 0x0D, CHR 0x0A]"

fun nat_to_string :: "nat \<Rightarrow> string" where
  "nat_to_string n =
     (if n < 10 then [char_of (48 + n)] else nat_to_string (n div 10) @ [char_of (48 + n mod 10)])"

declare nat_to_string.simps [simp del]

definition to_string :: "int \<Rightarrow> string" where
  "to_string i = (if i < 0 then ''-'' @ nat_to_string (nat (- i)) else nat_to_string (nat i))"

definition ntop4 :: "byte list \<Rightarrow> string" where
  "ntop4 b = to_string (uint (b ! 0)) @ ''.'' @ to_string (uint (b ! 1)) @ ''.'' @
     to_string (uint (b ! 2)) @ ''.'' @ to_string (uint (b ! 3))"

definition is_v4mapped :: "byte list \<Rightarrow> bool" where
  "is_v4mapped b \<longleftrightarrow> bytes_of b 12 = replicate 10 0 @ [0xFF, 0xFF]"

definition print_addr :: "os \<Rightarrow> sockaddr_storage \<Rightarrow> string" where
  "print_addr os a =
     (if ss_family a = AF_INET6
      then if is_v4mapped (sin6_addr a) then ntop4 (drop 12 (sin6_addr a))
           else os_ntop6 os (sin6_addr a)
      else ntop4 (sin_addr a))"

definition port_no :: "sockaddr_storage \<Rightarrow> int" where
  "port_no a = uint (sa_port a)"

definition addr_label :: "os \<Rightarrow> sockaddr_storage \<Rightarrow> string" where
  "addr_label os a = print_addr os a @ '':'' @ to_string (port_no a)"

section \<open>Tables\<close>

type_synonym def_row = "counter \<times> string \<times> string \<times> string"

definition kDefs :: "def_row list" where
  \<open>kDefs =
    [(AUTH_FAILURES, ''srtla_auth_failures_total'', '''',
      ''SRT authentication failures relayed back from the SRT server''),
     (BYTES_RECEIVED, ''srtla_bytes_received_total'', '''',
      ''Bytes received from SRTLA clients''),
     (CONN_REGISTRATIONS, ''srtla_conn_registrations_total'', '''',
      ''Accepted connection registrations (REG2)''),
     (CONN_REG_NO_GROUP, ''srtla_conn_registrations_rejected_total'', ''{reason="no_group"}'',
      ''Rejected connection registrations''),
     (CONN_REG_GROUP_MISMATCH, ''srtla_conn_registrations_rejected_total'', ''{reason="group_mismatch"}'',
      ''''),
     (CONN_REG_MAX_CONNS, ''srtla_conn_registrations_rejected_total'', ''{reason="max_conns"}'',
      ''''),
     (CONN_REG_SEND_ERROR, ''srtla_conn_registrations_rejected_total'', ''{reason="send_error"}'',
      ''''),
     (CONNECTIONS_REMOVED, ''srtla_connections_removed_total'', '''',
      ''Connections dropped after CONN_TIMEOUT without traffic''),
     (FORWARD_DROPPED, ''srtla_forward_dropped_total'', '''',
      ''Client packets dropped because the SRT socket send buffer was full; SRT recovers them when a later packet exposes the gap''),
     (FORWARD_ERRORS, ''srtla_forward_errors_total'', '''',
      ''Failures forwarding a client packet to the SRT server that ended the group''),
     (FORWARDED_BYTES, ''srtla_forwarded_bytes_total'', '''',
      ''Bytes forwarded to the SRT server''),
     (FORWARDED_PACKETS, ''srtla_forwarded_packets_total'', '''',
      ''Packets forwarded to the SRT server''),
     (GROUP_REGISTRATIONS, ''srtla_group_registrations_total'', '''',
      ''Accepted group registrations (REG1)''),
     (GROUP_REG_THROTTLED, ''srtla_group_registrations_rejected_total'', ''{reason="throttled"}'',
      ''Rejected group registrations''),
     (GROUP_REG_TABLE_FULL, ''srtla_group_registrations_rejected_total'', ''{reason="table_full"}'',
      ''''),
     (GROUP_REG_DUP_ADDR, ''srtla_group_registrations_rejected_total'', ''{reason="duplicate_address"}'',
      ''''),
     (GROUP_REG_SEND_ERROR, ''srtla_group_registrations_rejected_total'', ''{reason="send_error"}'',
      ''''),
     (GROUPS_REMOVED_IDLE, ''srtla_groups_removed_total'', ''{reason="idle_timeout"}'',
      ''Groups torn down, by cause''),
     (GROUPS_REMOVED_AUTH, ''srtla_groups_removed_total'', ''{reason="auth_failed"}'',
      ''''),
     (GROUPS_REMOVED_SRT_ERROR, ''srtla_groups_removed_total'', ''{reason="srt_error"}'',
      ''''),
     (GROUPS_REMOVED_EVICTED, ''srtla_groups_removed_total'', ''{reason="evicted"}'',
      ''''),
     (NAKS_RECEIVED, ''srtla_naks_received_total'', '''',
      ''SRT NAK packets accepted from clients''),
     (NAKS_SUPPRESSED, ''srtla_naks_suppressed_total'', '''',
      ''SRT NAK packets dropped as duplicates''),
     (PACKETS_RECEIVED, ''srtla_packets_received_total'', '''',
      ''Packets received from SRTLA clients''),
     (RECOVERY_STARTED, ''srtla_recoveries_total'', ''{result="started"}'',
      ''Connection recovery attempts''),
     (RECOVERY_COMPLETED, ''srtla_recoveries_total'', ''{result="completed"}'',
      ''''),
     (RECOVERY_FAILED, ''srtla_recoveries_total'', ''{result="failed"}'',
      ''''),
     (RECV_BATCHES, ''srtla_recv_batches_total'', '''',
      ''recvmmsg() calls that returned at least one packet; packets/batches is the receive-loop fill ratio''),
     (SEND_ERR_ACK, ''srtla_send_errors_total'', ''{path="ack"}'',
      ''Failed sends towards clients, by path''),
     (SEND_ERR_KEEPALIVE, ''srtla_send_errors_total'', ''{path="keepalive"}'',
      ''''),
     (SEND_ERR_DOWNSTREAM, ''srtla_send_errors_total'', ''{path="downstream"}'',
      ''''),
     (SRT_BYTES_RECEIVED, ''srtla_srt_bytes_received_total'', '''',
      ''Bytes received from the SRT server''),
     (SRT_PACKETS_RECEIVED, ''srtla_srt_packets_received_total'', '''',
      ''Packets received from the SRT server'')]\<close>

type_synonym conn_def = "string \<times> string \<times> string \<times> (connection \<Rightarrow> time_t \<Rightarrow> int)"

definition kConnDefs :: "conn_def list" where
  \<open>kConnDefs =
    [(''srtla_conn_bytes_received_total'', ''counter'',
      ''Bytes received on this connection'',
      \<lambda>c now. sint (bytes_received (stats c))),
     (''srtla_conn_packets_received_total'', ''counter'',
      ''Packets received on this connection'',
      \<lambda>c now. sint (packets_received (stats c))),
     (''srtla_conn_packets_lost_total'', ''counter'',
      ''Packets reported lost (NAKs) on this connection'',
      \<lambda>c now. uint (packets_lost (stats c))),
     (''srtla_conn_weight_percent'', ''gauge'',
      ''Load-balancing weight assigned to this connection'',
      \<lambda>c now. uint (weight_percent (stats c))),
     (''srtla_conn_error_points'', ''gauge'',
      ''Quality error points accumulated in the last evaluation'',
      \<lambda>c now. uint (error_points (stats c))),
     (''srtla_conn_rtt_ms'', ''gauge'',
      ''Round-trip time reported by the sender (extended keepalives only)'',
      \<lambda>c now. uint (rtt_ms (stats c))),
     (''srtla_conn_window'', ''gauge'',
      ''Sender-side congestion window (extended keepalives only)'',
      \<lambda>c now. window (stats c)),
     (''srtla_conn_in_flight'', ''gauge'',
      ''Sender-side in-flight packets (extended keepalives only)'',
      \<lambda>c now. in_flight (stats c)),
     (''srtla_conn_sender_bitrate_bytes_per_second'', ''gauge'',
      ''Send rate reported by the sender (extended keepalives only)'',
      \<lambda>c now. uint (sender_bitrate_bps (stats c))),
     (''srtla_conn_idle_seconds'', ''gauge'',
      ''Seconds since the last packet on this connection'',
      \<lambda>c now. now - last_rcvd c),
     (''srtla_conn_extended_keepalives'', ''gauge'',
      ''1 if the sender sends extended keepalives with telemetry'',
      \<lambda>c now. if supports_extended_keepalives (stats c) then 1 else 0)]\<close>

definition VERSION :: string where "VERSION = ''1.0.0''"

section \<open>Rendering\<close>

record exporter =
  listen_fd :: int
  detailed :: bool
  start_time :: time_t

definition help_and_type :: "string \<Rightarrow> string \<Rightarrow> string \<Rightarrow> string" where
  "help_and_type name help typ =
     ''# HELP '' @ name @ '' '' @ help @ nl @ ''# TYPE '' @ name @ '' '' @ typ @ nl"

definition append_gauge :: "string \<Rightarrow> string \<Rightarrow> int \<Rightarrow> string" where
  "append_gauge name help v = help_and_type name help ''gauge'' @ name @ '' '' @ to_string v @ nl"

definition counter_line :: "string \<Rightarrow> string \<Rightarrow> u64 \<Rightarrow> string" where
  "counter_line name labels v = name @ labels @ '' '' @ to_string (uint v) @ nl"

fun render_counters :: "counters \<Rightarrow> string \<Rightarrow> def_row list \<Rightarrow> string" where
  "render_counters vs prev_name [] = []"
| "render_counters vs prev_name ((c, name, labels, help) # defs) =
     (if prev_name \<noteq> name then help_and_type name help ''counter'' else []) @
     counter_line name labels (vs c) @ render_counters vs name defs"

definition established_groups :: "connection_group list \<Rightarrow> int" where
  "established_groups gs = int (length (filter established gs))"

definition connection_count :: "connection_group list \<Rightarrow> int" where
  "connection_count gs = int (sum_list (map (length \<circ> conns) gs))"

definition build_info :: string where
  \<open>build_info = ''# HELP srtla_build_info Build information'' @ nl @
     ''# TYPE srtla_build_info gauge'' @ nl @
     ''srtla_build_info{version="'' @ VERSION @ ''"} 1'' @ nl\<close>

definition conn_line :: "os \<Rightarrow> conn_def \<Rightarrow> time_t \<Rightarrow> u16 \<Rightarrow> connection \<Rightarrow> string" where
  \<open>conn_line os d now group_port c =
     (case d of (name, typ, help, val) \<Rightarrow>
        name @ ''{group="'' @ to_string (uint group_port) @ ''",remote="'' @
        addr_label os (address c) @ ''"} '' @ to_string (val c now) @ nl)\<close>

fun render_groups :: "os \<Rightarrow> conn_def \<Rightarrow> time_t \<Rightarrow> connection_group list \<Rightarrow> receiver
    \<Rightarrow> string \<times> receiver" where
  "render_groups os d now [] s = ([], s)"
| "render_groups os d now (g # gs) s =
     (let (group_port, s) = (if srt_sock g \<ge> 0 then get_local_port os (srt_sock g) s else (0, s));
          (rest, s) = render_groups os d now gs s
      in (concat (map (conn_line os d now group_port) (conns g)) @ rest, s))"

fun render_conns :: "os \<Rightarrow> conn_def list \<Rightarrow> time_t \<Rightarrow> receiver \<Rightarrow> string \<times> receiver" where
  "render_conns os [] now s = ([], s)"
| "render_conns os (d # ds) now s =
     (let (lines, s) = render_groups os d now (groups s) s;
          (rest, s) = render_conns os ds now s
      in (case d of (name, typ, help, val) \<Rightarrow> help_and_type name help typ @ lines @ rest, s))"

definition render :: "os \<Rightarrow> exporter \<Rightarrow> time_t \<Rightarrow> receiver \<Rightarrow> string \<times> receiver" where
  "render os ex now s =
     (let txt = render_counters (g_values s) [] kDefs @ build_info @
            append_gauge ''srtla_start_time_seconds'' ''Unix time the receiver started'' (start_time ex) @
            append_gauge ''srtla_groups'' ''Registered connection groups'' (int (length (groups s))) @
            append_gauge ''srtla_groups_established''
              ''Groups whose SRT session was accepted by the SRT server'' (established_groups (groups s)) @
            append_gauge ''srtla_connections'' ''Registered connections across all groups''
              (connection_count (groups s)) @
            append_gauge ''srtla_auth_sources_blocked''
              ''Source IPs currently blocked for repeated SRT auth failures''
              (int (blocked_count now (limiter s)))
      in if \<not> detailed ex then (txt, s)
         else let (conn_txt, s) = render_conns os kConnDefs now s in (txt @ conn_txt, s))"

section \<open>Serving\<close>

definition http_response :: "string \<Rightarrow> string" where
  "http_response body =
     ''HTTP/1.1 200 OK'' @ crlf @ ''Content-Type: text/plain; version=0.0.4'' @ crlf @
     ''Content-Length: '' @ to_string (int (length body)) @ crlf @
     ''Connection: close'' @ crlf @ crlf @ body"

text \<open>The send loop; it does not return if \<open>send\<close> is interrupted for ever.\<close>

partial_function (option) send_response :: "os \<Rightarrow> int \<Rightarrow> string \<Rightarrow> receiver \<Rightarrow> receiver option" where
  "send_response os client rest s =
     (if rest \<noteq> [] then
        (case os_http_send os (tick s) client rest of (ret, interrupted) \<Rightarrow>
           if ret \<le> 0 then
             if interrupted then send_response os client rest (called s) else Some (called s)
           else send_response os client (drop (nat ret) rest)
                  (emit (Http_Sent client (take (nat ret) rest)) (called s)))
      else Some s)"

definition body_for :: "os \<Rightarrow> exporter \<Rightarrow> string option \<Rightarrow> receiver \<Rightarrow> string \<times> receiver" where
  "body_for os ex body s =
     (case body of
        Some b \<Rightarrow> (b, s)
      | None \<Rightarrow> render os ex (case os_seconds os (tick s) of None \<Rightarrow> 0 | Some t \<Rightarrow> t) (called s))"

partial_function (option) accept_loop ::
    "os \<Rightarrow> exporter \<Rightarrow> string option \<Rightarrow> receiver \<Rightarrow> receiver option" where
  "accept_loop os ex body s =
     (case os_accept os (tick s) of
        None \<Rightarrow> Some (called s)
      | Some client \<Rightarrow>
          (case body_for os ex body (emit (Opened client) (called s)) of (b, s) \<Rightarrow>
             Option.bind (send_response os client (http_response b) (called s))
               (\<lambda>s. accept_loop os ex (Some b) (emit (Closed client) (called s)))))"

declare send_response.simps [code] accept_loop.simps [code]

definition exporter_handle_event :: "os \<Rightarrow> exporter \<Rightarrow> receiver \<Rightarrow> receiver option" where
  "exporter_handle_event os ex s = accept_loop os ex None s"

section \<open>The exporter only reads\<close>

lemma view_render_groups: "view (snd (render_groups os d now gs s)) = view s"
  by (induction gs arbitrary: s) (simp_all add: Let_def split_def)

lemma view_render_conns: "view (snd (render_conns os ds now s)) = view s"
  by (induction ds arbitrary: s) (simp_all add: Let_def split_def view_render_groups)

lemma view_render [simp]: "view (snd (render os ex now s)) = view s"
  by (simp add: render_def Let_def split_def view_render_conns)

lemma view_body_for [simp]: "view (snd (body_for os ex body s)) = view s"
  by (simp add: body_for_def split: option.split)

lemma view_send_response: "send_response os client rest s = Some s' \<Longrightarrow> view s' = view s"
proof (induction rule: send_response.raw_induct [rotated, consumes 1, case_names step])
  case (step f os client rest s s')
  then show ?case by (force split: if_splits prod.splits)
qed

lemma refines_accept_loop: "accept_loop os ex body s = Some s' \<Longrightarrow> refines s s'"
proof (induction rule: accept_loop.raw_induct [rotated, consumes 1, case_names step])
  case (step f os ex body s s')
  show ?case
  proof (cases "os_accept os (tick s)")
    case None
    with step show ?thesis by (auto intro: refines_same)
  next
    case (Some client)
    obtain b s1 where b: "body_for os ex body (emit (Opened client) (called s)) = (b, s1)" by fastforce
    then have v1: "view s1 = view (emit (Opened client) (called s))"
      using view_body_for [of os ex body "emit (Opened client) (called s)"] by simp
    with step(2) Some b obtain s2 where s2: "send_response os client (http_response b) (called s1) = Some s2"
      "f os ex (Some b) (emit (Closed client) (called s2)) = Some s'"
      by (auto simp: bind_eq_Some_conv)
    have "view s2 = view s1" using view_send_response [OF s2(1)] by simp
    then have "refines s (emit (Closed client) (called s2))"
      by (intro refines_transient [of _ _ client]) (simp add: v1)
    also have "refines \<dots> s'" using step(1) [OF s2(2)] .
    finally show ?thesis .
  qed
qed

lemma refines_exporter: "exporter_handle_event os ex s = Some s' \<Longrightarrow> refines s s'"
  by (simp add: exporter_handle_event_def refines_accept_loop)

lemma render_groups_core: "same_core s (snd (render_groups os d now gs s))"
  by (induction gs arbitrary: s) (auto simp: Let_def split_def same_core_def)

lemma render_conns_core: "same_core s (snd (render_conns os ds now s))"
  by (induction ds arbitrary: s) (auto simp: Let_def split_def intro: same_core_trans render_groups_core)

lemma body_for_core: "same_core s (snd (body_for os ex body s))"
  by (auto simp: body_for_def render_def Let_def split_def
      intro: same_core_trans [OF same_core_steps(1)] render_conns_core split: option.split)

lemma send_response_core: "send_response os client rest s = Some s' \<Longrightarrow> same_core s s'"
proof (induction rule: send_response.raw_induct [rotated, consumes 1, case_names step])
  case (step f os client rest s s')
  then show ?case by (force simp: same_core_def split: if_splits prod.splits)
qed

lemma accept_loop_core: "accept_loop os ex body s = Some s' \<Longrightarrow> same_core s s'"
proof (induction rule: accept_loop.raw_induct [rotated, consumes 1, case_names step])
  case (step f os ex body s s')
  show ?case
  proof (cases "os_accept os (tick s)")
    case None
    with step show ?thesis by auto
  next
    case (Some client)
    obtain b s1 where b: "body_for os ex body (emit (Opened client) (called s)) = (b, s1)" by fastforce
    with step(2) Some obtain s2 where s2: "send_response os client (http_response b) (called s1) = Some s2"
      "f os ex (Some b) (emit (Closed client) (called s2)) = Some s'"
      by (auto simp: bind_eq_Some_conv)
    have "same_core s s1"
      using body_for_core [of "emit (Opened client) (called s)" os ex body] b by (simp add: same_core_def)
    moreover have "same_core s1 s2" using send_response_core [OF s2(1)] by (simp add: same_core_def)
    moreover have "same_core s2 s'" using step(1) [OF s2(2)] by (simp add: same_core_def)
    ultimately show ?thesis by (blast intro: same_core_trans)
  qed
qed

end
