(* ===== verification/Receiver.thy ===== *)
theory Receiver
  imports Handshake Exporter
begin

text \<open>
  The main loop of \<open>srtla_rec\<close> (\<open>receiver_main.cpp\<close>). An epoll event carries a pointer: null for
  the SRTLA socket, the exporter, or the group whose SRT socket is ready. A pointer to a group
  that is gone is dereferenced all the same, which is undefined behaviour.
\<close>

section \<open>Definitions\<close>

definition MAX_EPOLL_EVENTS :: nat where [const_defs]: "MAX_EPOLL_EVENTS = 10"

datatype event = Ev_Srtla | Ev_Metrics | Ev_Group nat

definition handle_event :: "os \<Rightarrow> exporter \<Rightarrow> time_t \<Rightarrow> event \<Rightarrow> receiver \<Rightarrow> failure + receiver" where
  "handle_event os ex ts ev s =
     (case ev of
        Ev_Srtla \<Rightarrow> process_packets os ts s
      | Ev_Metrics \<Rightarrow>
          (case exporter_handle_event os ex s of None \<Rightarrow> Inl No_Return | Some s \<Rightarrow> Inr s)
      | Ev_Group p \<Rightarrow>
          (case get_group p s of
             None \<Rightarrow> Inl Use_After_Free
           | Some raw_group \<Rightarrow>
               (case find_group_by_id (gid raw_group) (groups s) of
                  None \<Rightarrow> Inr s
                | Some shared_group \<Rightarrow> Inr (handle_srt_data os (gptr shared_group) s))))"

fun handle_events ::
    "os \<Rightarrow> exporter \<Rightarrow> time_t \<Rightarrow> event list \<Rightarrow> receiver \<Rightarrow> failure + receiver" where
  "handle_events os ex ts [] s = Inr s"
| "handle_events os ex ts (ev # evs) s =
     (let group_cnt = length (groups s)
      in case handle_event os ex ts ev s of
           Inl e \<Rightarrow> Inl e
         | Inr s \<Rightarrow> if length (groups s) < group_cnt then Inr s
                    else handle_events os ex ts evs s)"

text \<open>The evaluation of every group at the end of an iteration.\<close>

fun evaluate_groups :: "os \<Rightarrow> time_t \<Rightarrow> connection_group list \<Rightarrow> receiver
    \<Rightarrow> connection_group list \<times> receiver" where
  "evaluate_groups os ts [] s = ([], s)"
| "evaluate_groups os ts (g # gs) s =
     (let g = adjust_weights (evaluate_group (os_ms os (tick s)) g ts) ts;
          (rest, s) = evaluate_groups os ts gs (called s)
      in (g # rest, s))"

definition end_of_iteration :: "os \<Rightarrow> time_t \<Rightarrow> receiver \<Rightarrow> receiver" where
  "end_of_iteration os ts s =
     (let s = cleanup_inactive os (Some (send_keepalive os)) ts s;
          s = s\<lparr>limiter := limiter_cleanup ts (limiter s)\<rparr>;
          (gs, s) = evaluate_groups os ts (groups s) s
      in s\<lparr>groups := gs\<rparr>)"

definition iteration :: "os \<Rightarrow> exporter \<Rightarrow> event list \<Rightarrow> receiver \<Rightarrow> failure + receiver" where
  "iteration os ex evs s =
     (case os_seconds os (tick s) of
        None \<Rightarrow> Inr (called s)
      | Some ts \<Rightarrow>
          (case handle_events os ex ts (take MAX_EPOLL_EVENTS evs) (called s) of
             Inl e \<Rightarrow> Inl e
           | Inr s \<Rightarrow> Inr (end_of_iteration os ts s)))"

text \<open>The loop: \<open>epoll_wait\<close> may report any events; the state changes from iteration to iteration.\<close>

inductive run :: "os \<Rightarrow> exporter \<Rightarrow> receiver \<Rightarrow> receiver \<Rightarrow> bool" for os ex s0 where
  start: "run os ex s0 s0"
| loop: "run os ex s0 s \<Longrightarrow> iteration os ex evs s = Inr s' \<Longrightarrow> run os ex s0 s'"

section \<open>Every iteration refines the abstract life cycle\<close>

lemma refines_handle_event: "handle_event os ex ts ev s = Inr s' \<Longrightarrow> refines s s'"
  by (auto simp: handle_event_def refines_process_packets refines_exporter refines_handle_srt_data
      split: event.splits option.splits)

lemma refines_handle_events: "handle_events os ex ts evs s = Inr s' \<Longrightarrow> refines s s'"
proof (induction evs arbitrary: s)
  case (Cons ev evs)
  then obtain s1 where s1: "handle_event os ex ts ev s = Inr s1"
    by (auto simp: Let_def split: sum.splits)
  with Cons.prems have "s' = s1 \<or> handle_events os ex ts evs s1 = Inr s'"
    by (auto simp: Let_def split: if_splits)
  with refines_handle_event [OF s1] Cons.IH show ?case by (auto intro: refines_trans)
qed simp

lemma evaluate_groups_vsteps:
  assumes "distinct (map gptr (xs @ gs))"
  shows "vstep\<^sup>*\<^sup>* ((view s)\<lparr>table := xs @ gs\<rparr>)
    ((view (snd (evaluate_groups os ts gs s)))\<lparr>table := xs @ fst (evaluate_groups os ts gs s)\<rparr>)"
  using assms
proof (induction gs arbitrary: xs s)
  case (Cons g gs)
  define g1 where "g1 = evaluate_group (os_ms os (tick s)) g ts"
  define g2 where "g2 = adjust_weights g1 ts"
  have p: "gptr g1 = gptr g" "gptr g2 = gptr g" by (simp_all add: g1_def g2_def evaluate.keeps_ptr adjust.keeps_ptr)
  have "vstep ((view s)\<lparr>table := xs @ g # gs\<rparr>) ((view s)\<lparr>table := xs @ g1 # gs\<rparr>)"
    unfolding g1_def by (rule evaluate.vstep_at [OF Cons.prems])
  moreover have "vstep ((view s)\<lparr>table := xs @ g1 # gs\<rparr>) ((view s)\<lparr>table := xs @ g2 # gs\<rparr>)"
    unfolding g2_def by (rule adjust.vstep_at) (use Cons.prems p in simp)
  ultimately have "vstep\<^sup>*\<^sup>* ((view s)\<lparr>table := xs @ g # gs\<rparr>) ((view (called s))\<lparr>table := (xs @ [g2]) @ gs\<rparr>)"
    by simp
  also have "vstep\<^sup>*\<^sup>* \<dots> ((view (snd (evaluate_groups os ts gs (called s))))
      \<lparr>table := (xs @ [g2]) @ fst (evaluate_groups os ts gs (called s))\<rparr>)"
    by (rule Cons.IH) (use Cons.prems p in simp)
  finally show ?case by (simp add: Let_def split_def g1_def g2_def)
qed simp

lemma refines_end_of_iteration: "refines s (end_of_iteration os ts s)"
proof -
  define s1 where "s1 = cleanup_inactive os (Some (send_keepalive os)) ts s"
  define s2 where "s2 = s1\<lparr>limiter := limiter_cleanup ts (limiter s1)\<rparr>"
  have "refines s s1" unfolding s1_def by (rule keepalives.refines_cleanup)
  also have "refines s1 s2"
  proof (rule refines_step)
    have "view s2 = (view s1)\<lparr>throttle := limiter_cleanup ts (throttle (view s1))\<rparr>"
      by (simp add: s2_def view_def)
    then show "vstep (view s1) (view s2)" using vstep.forgive [of "view s1" ts] by simp
  qed
  also have "refines s2 (end_of_iteration os ts s)"
  proof -
    have "vstep\<^sup>*\<^sup>* (view s2) ((view (snd (evaluate_groups os ts (groups s2) s2)))
        \<lparr>table := fst (evaluate_groups os ts (groups s2) s2)\<rparr>)" if "wf_receiver s2"
      using evaluate_groups_vsteps [of "[]" "groups s2" s2 os ts] that
      by (simp add: wf_receiver_def wf_groups_def view_def)
    moreover have "end_of_iteration os ts s = (snd (evaluate_groups os ts (groups s2) s2))
        \<lparr>groups := fst (evaluate_groups os ts (groups s2) s2)\<rparr>"
      unfolding end_of_iteration_def Let_def split_def s1_def [symmetric] s2_def [symmetric] ..
    ultimately show ?thesis by (simp add: refines_def view_groups)
  qed
  finally show ?thesis .
qed

lemma refines_iteration:
  assumes "iteration os ex evs s = Inr s'"
  shows "refines s s'"
proof (cases "os_seconds os (tick s)")
  case None
  with assms show ?thesis by (auto simp: iteration_def intro: refines_same)
next
  case (Some ts)
  with assms obtain s1 where s1: "handle_events os ex ts (take MAX_EPOLL_EVENTS evs) (called s) = Inr s1"
    "s' = end_of_iteration os ts s1"
    by (auto simp: iteration_def split: sum.splits)
  have "refines (called s) s1" using s1(1) by (rule refines_handle_events)
  then have "refines s s1" by (rule refines_from) simp
  then show ?thesis unfolding s1(2) using refines_end_of_iteration by (rule refines_trans)
qed

lemma refines_run: "run os ex s0 s \<Longrightarrow> refines s0 s"
  by (induction rule: run.induct) (auto intro: refines_trans refines_iteration)

lemma init_invariants:
  "wf_receiver (init_receiver sa efd)" "balanced_groups (view (init_receiver sa efd))"
  "balanced_fds (view (init_receiver sa efd))"
  by (simp_all add: init_receiver_def wf_receiver_def wf_groups_def balanced_groups_def balanced_fds_def
      view_def no_counts_def removed_count_def opened_in_def closed_in_def)

lemma reachable_vsteps:
  "run os ex (init_receiver sa efd) s \<Longrightarrow> vstep\<^sup>*\<^sup>* (view (init_receiver sa efd)) (view s)"
  using refines_run [of os ex "init_receiver sa efd" s] init_invariants(1) by (simp add: refines_def)

text \<open>C1. The receiver refines the abstract life cycle of groups: what an arbitrary number of
  iterations of the main loop does to the tables, the life-cycle counters and the descriptors is a
  sequence of the abstract transitions enter, update, attach, leave, and the like.\<close>

theorem receiver_refines_lifecycle:
  assumes "wf_receiver s0" and "run os ex s0 s"
  shows "vstep\<^sup>*\<^sup>* (view s0) (view s)"
  using refines_run [OF assms(2)] assms(1) by (simp add: refines_def)

text \<open>C2. Whatever the kernel answers and whatever arrives, every reachable state of the receiver is
  well-formed: at most 200 groups with distinct identities; at most 16 connections in a
  group, with pairwise different addresses; no client address answered for by two groups, so
  that a datagram belongs to at most one; acknowledgement logs and RTT histories of their
  fixed sizes with indices in range; an SRT socket only for groups that forwarded data.\<close>

theorem reachable_well_formed:
  assumes "run os ex (init_receiver sa efd) s"
  shows "wf_receiver s"
  using refines_wf [OF refines_run [OF assms] init_invariants(1)] .

text \<open>C9. The counters account for every group: the registrations counted so far are the
  removals counted under the four causes plus the groups in the table, modulo the wrap-around of
  the 64-bit counters.\<close>

theorem group_counters_balance:
  assumes "run os ex (init_receiver sa efd) s"
  shows "counter_value GROUP_REGISTRATIONS (g_values s) =
    counter_value GROUPS_REMOVED_IDLE (g_values s) + counter_value GROUPS_REMOVED_AUTH (g_values s) +
    counter_value GROUPS_REMOVED_SRT_ERROR (g_values s) + counter_value GROUPS_REMOVED_EVICTED (g_values s) +
    of_nat (length (groups s))"
  using group_count.steps_keep [OF reachable_vsteps [OF assms] init_invariants(2)]
  by (simp add: balanced_groups_def removed_count_def counter_value_def)

text \<open>C7. No descriptor is leaked or closed twice: for every descriptor above 0, the number of times
  it was opened (an SRT socket or an accepted scrape) is the number of times it was closed
  plus the number of groups that hold it. Descriptor 0 is excluded, because the destructor of a
  group does not close it.\<close>

theorem descriptors_balance:
  assumes "run os ex (init_receiver sa efd) s" and "0 < fd"
  shows "count_list (opened_in (out s)) fd =
    count_list (closed_in (out s)) fd + count_list (map srt_sock (groups s)) fd"
proof -
  have "count (filter_mset (\<lambda>fd. 0 < fd) (mset (opened_in (out s)))) fd =
      count (filter_mset (\<lambda>fd. 0 < fd) (mset (closed_in (out s))) +
        filter_mset (\<lambda>fd. 0 < fd) (mset (map srt_sock (groups s)))) fd"
    using fd_count.steps_keep [OF reachable_vsteps [OF assms(1)] init_invariants(3)]
    unfolding balanced_fds_def view_fields by (rule arg_cong)
  with assms(2) show ?thesis by (simp add: count_mset del: mset_map)
qed

end
