(* ===== verification/Dangling.thy ===== *)
theory Dangling
  imports Receiver
begin

text \<open>
  The raw pointers to groups that epoll hands back (\<open>receiver_main.cpp\<close>). The loop guards against
  groups that an earlier event of the same iteration removed by comparing the size of the table
  before and after each event; this theory shows when that is enough and when it is not.
\<close>

section \<open>Pointers held by pending events\<close>

definition ptrs :: "receiver \<Rightarrow> nat set" where
  "ptrs s = gptr ` set (groups s)"

lemma ptrs_view: "groups s' = groups s \<Longrightarrow> ptrs s' = ptrs s"
  by (simp add: ptrs_def)

lemma ptrs_others:
  assumes "others p s' = others p s" and "p \<in> ptrs s"
  shows "ptrs s' \<subseteq> ptrs s"
proof
  fix q assume "q \<in> ptrs s'"
  then obtain h where h: "h \<in> set (groups s')" "gptr h = q" by (auto simp: ptrs_def)
  show "q \<in> ptrs s"
  proof (cases "q = p")
    case False
    with h have "h \<in> set (others p s')" by (simp add: others_def)
    with assms(1) have "h \<in> set (others p s)" by simp
    with h show ?thesis by (auto simp: others_def ptrs_def)
  qed (use assms(2) in simp)
qed

lemma register_connection_ptrs: "ptrs (register_connection os addr buf ts s) \<subseteq> ptrs s"
proof (cases "find_group_by_id (drop 2 buf) (groups s)")
  case None
  then show ?thesis by (simp add: unknown_register_connection ptrs_def)
next
  case (Some g)
  then have "gptr g \<in> ptrs s" using find_group_by_id_in by (auto simp: ptrs_def)
  with others_register_connection [OF Some] show ?thesis by (rule ptrs_others)
qed

lemma single_packet_ptrs:
  assumes "process_single_packet os buf addr ts s = Inr s'" and "\<not> is_srtla_reg1 buf (int (length buf))"
  shows "ptrs s' \<subseteq> ptrs s"
proof (cases "is_srtla_reg2 buf (int (length buf))")
  case True
  with assms have "s' = register_connection os addr buf ts s" by (simp add: process_single_packet_def)
  then show ?thesis by (simp add: register_connection_ptrs)
next
  case False
  show ?thesis
  proof (cases "\<exists>p i. find_by_address addr (groups s) = Some (p, Some i)")
    case True
    then obtain p i where pi: "find_by_address addr (groups s) = Some (p, Some i)" by blast
    then have "p \<in> ptrs s" using find_by_address_Some [OF pi] by (auto simp: ptrs_def)
    moreover have "s' = process_known_packet os p i buf addr ts s"
      using assms False pi by (simp add: process_single_packet_def)
    ultimately show ?thesis using ptrs_others others_known_packet by blast
  next
    case none: False
    with assms False have "s' = s" by (auto simp: process_single_packet_def split: option.splits)
    then show ?thesis by simp
  qed
qed

definition no_reg1 :: "(sockaddr_storage \<times> byte list) list \<Rightarrow> bool" where
  "no_reg1 msgs \<longleftrightarrow> (\<forall>(addr, data) \<in> set msgs. \<not> is_srtla_reg1 (take MTU data) (int (length (take MTU data))))"

lemma batch_ptrs:
  "process_batch os ts msgs s = Inr s' \<Longrightarrow> no_reg1 msgs \<Longrightarrow> ptrs s' \<subseteq> ptrs s"
proof (induction msgs arbitrary: s)
  case (Cons msg msgs)
  obtain addr data where msg: "msg = (addr, data)" by fastforce
  have nr: "no_reg1 msgs" "\<not> is_srtla_reg1 (take MTU data) (int (length (take MTU data)))"
    using Cons.prems(2) by (auto simp: no_reg1_def msg)
  show ?case
  proof (cases "0 < length (take MTU data)")
    case False
    with Cons msg nr show ?thesis by (auto simp: Let_def split: if_splits)
  next
    case True
    define s1 where "s1 = counted BYTES_RECEIVED (of_nat (length (take MTU data))) (counted PACKETS_RECEIVED 1 s)"
    from True Cons.prems obtain s2 where s2: "process_single_packet os (take MTU data) addr ts s1 = Inr s2"
      "process_batch os ts msgs s2 = Inr s'"
      by (auto simp: msg s1_def Let_def split: sum.splits)
    have "ptrs s' \<subseteq> ptrs s2" using Cons.IH [OF s2(2) nr(1)] .
    also have "\<dots> \<subseteq> ptrs s1" using single_packet_ptrs [OF s2(1) nr(2)] .
    finally show ?thesis by (simp add: s1_def ptrs_def)
  qed
qed simp

lemma handle_event_ptrs:
  assumes res: "handle_event os ex ts ev s = Inr s'" and nr: "\<And>t msgs. os_recvmmsg os t = Some msgs \<Longrightarrow> no_reg1 msgs"
  shows "ptrs s' \<subseteq> ptrs s"
proof (cases ev)
  case Ev_Srtla
  show ?thesis
  proof (cases "os_recvmmsg os (tick s)")
    case None
    with res Ev_Srtla show ?thesis by (auto simp: handle_event_def process_packets_def ptrs_def)
  next
    case (Some msgs)
    have "no_reg1 (take RECV_BATCH_SIZE msgs)" using nr [OF Some] by (auto simp: no_reg1_def dest: in_set_takeD)
    from batch_ptrs [OF _ this] res Ev_Srtla Some have "ptrs s' \<subseteq> ptrs (counted RECV_BATCHES 1 (called s))"
      by (simp add: handle_event_def process_packets_def)
    then show ?thesis by (simp add: ptrs_def)
  qed
next
  case Ev_Metrics
  with res have "same_core s s'"
    by (auto simp: handle_event_def exporter_handle_event_def dest: accept_loop_core split: option.splits)
  then show ?thesis by (simp add: ptrs_def same_core_groups)
next
  case (Ev_Group p)
  with res have "s' = s \<or> (\<exists>q\<in>ptrs s. s' = handle_srt_data os q s)"
    by (auto simp: handle_event_def ptrs_def dest: find_group_by_id_in split: option.splits)
  with ptrs_others [OF others_handle_srt_data] show ?thesis by blast
qed

lemma no_shrink_same_ptrs:
  assumes "wf_receiver s" "wf_receiver s'" "ptrs s' \<subseteq> ptrs s" "length (groups s) \<le> length (groups s')"
  shows "ptrs s' = ptrs s"
proof -
  have "card (ptrs s) = length (groups s)" if "wf_receiver s" for s
    using that distinct_card [of "map gptr (groups s)"] by (simp add: ptrs_def wf_receiver_def wf_groups_def)
  with assms have "card (ptrs s) \<le> card (ptrs s')" by simp
  with assms(3) show ?thesis by (intro card_seteq) (simp_all add: ptrs_def)
qed

definition live_events :: "event list \<Rightarrow> receiver \<Rightarrow> bool" where
  "live_events evs s \<longleftrightarrow> (\<forall>p. Ev_Group p \<in> set evs \<longrightarrow> p \<in> ptrs s)"

lemma get_group_ptrs: "get_group p s = None \<longleftrightarrow> p \<notin> ptrs s"
  by (auto simp: get_group_def ptrs_def find_None_iff)

lemma handle_event_live:
  assumes "handle_event os ex ts ev s = Inl Use_After_Free"
  shows "\<not> live_events (ev # evs) s"
proof (cases ev)
  case Ev_Srtla
  with assms show ?thesis using process_packets_failure [of os ts s Use_After_Free] by (simp add: handle_event_def)
next
  case Ev_Metrics
  with assms show ?thesis by (simp add: handle_event_def split: option.splits)
next
  case (Ev_Group p)
  with assms have "get_group p s = None" by (simp add: handle_event_def split: option.splits)
  with Ev_Group show ?thesis by (auto simp: live_events_def get_group_ptrs)
qed

text \<open>C11. While no group registers, no event is handled through a dangling pointer: if the groups the events of
  an iteration point to are in the table when the events are taken up, and no datagram of the
  iteration is a group registration, then none of the events dereferences a group that is gone. An event
  that removes a group shortens the table, and the loop drops the rest of the events.\<close>

theorem no_use_after_free:
  assumes "wf_receiver s" and "live_events evs s"
    and "\<And>t msgs. os_recvmmsg os t = Some msgs \<Longrightarrow> no_reg1 msgs"
  shows "handle_events os ex ts evs s \<noteq> Inl Use_After_Free"
  using assms(1,2)
proof (induction evs arbitrary: s)
  case (Cons ev evs)
  show ?case
  proof (cases "handle_event os ex ts ev s")
    case (Inl e)
    with Cons.prems(2) handle_event_live [of os ex ts ev s evs] show ?thesis by auto
  next
    case (Inr s')
    have wf: "wf_receiver s'" using refines_wf [OF refines_handle_event [OF Inr] Cons.prems(1)] .
    have sub: "ptrs s' \<subseteq> ptrs s" using handle_event_ptrs [OF Inr assms(3)] .
    have "live_events evs s'" if "\<not> length (groups s') < length (groups s)"
      using no_shrink_same_ptrs [OF Cons.prems(1) wf sub] that Cons.prems(2)
      by (simp add: live_events_def)
    with Cons.IH [OF wf] Inr show ?thesis by (auto simp: Let_def)
  qed
qed simp

section \<open>A stale pointer\<close>

lemma length_others:
  assumes "wf_receiver s" and "g \<in> set (groups s)"
  shows "Suc (length (others (gptr g) s)) = length (groups s)"
proof -
  obtain xs ys where gs: "groups s = xs @ g # ys" using assms(2) by (meson split_list)
  have "others (gptr g) s = xs @ ys"
    unfolding others_def gs
    by (rule filter_other_keys) (use assms(1) gs in \<open>simp add: wf_receiver_def wf_groups_def\<close>)
  then show ?thesis by (simp add: gs)
qed

text \<open>C12. The check the loop makes against dangling pointers, that the table did not become shorter,
  is not enough. In a batch where the SRT server refuses the packet of one group and a
  newcomer registers, one group goes and one comes: the table has its old length, the loop carries
  on, and the pending event of the removed group is handled through its freed object.\<close>

theorem stale_event_use_after_free:
  assumes wf: "wf_receiver s"
    and data: "plain_data buf" "length buf \<le> MTU" "find_by_address addr (groups s) = Some (p, Some i)"
    and g: "get_group p s = Some g" "0 \<le> srt_sock g"
    and fail: "\<not> send_ok ret err buf" "\<And>t. os_send os t (srt_sock g) buf = (ret, err)"
    and newcomer: "is_srtla_reg1 reg 258" "length reg = 258" "find_by_address naddr (groups s) = None"
      "\<not> is_blocked naddr ts (limiter s)"
    and os: "replies_sent os" "os_recvmmsg os (tick s) = Some [(addr, buf), (naddr, reg)]"
  shows "handle_events os ex ts [Ev_Srtla, Ev_Group p] s = Inl Use_After_Free"
proof -
  define s0 where "s0 = counted BYTES_RECEIVED (of_nat (length buf)) (counted PACKETS_RECEIVED 1 (counted RECV_BATCHES 1 (called s)))"
  have gin: "g \<in> set (groups s)" "gptr g = p" using get_group_Some [OF g(1)] by simp_all
  have "find_by_address addr (groups s0) = Some (p, Some i)" "get_group p s0 = Some g"
    using data(3) g(1) by (simp_all add: s0_def get_group_def)
  then obtain s1 where s1: "process_single_packet os buf addr ts s0 = Inr s1"
    "groups s1 = others p s0" "limiter s1 = limiter s0"
    using data_packet_refused [OF data(1) _ _ g(2) fail] by blast
  define s2 where "s2 = counted BYTES_RECEIVED 258 (counted PACKETS_RECEIVED 1 s1)"
  have gs2: "groups s2 = others p s" "limiter s2 = limiter s" using s1 by (simp_all add: s2_def s0_def others_def)
  have len: "Suc (length (groups s2)) = length (groups s)" using length_others [OF wf gin(1)] gin(2) gs2 by simp
  have room: "make_room os s2 = (True, s2)" using len wf by (simp add: make_room_def wf_receiver_def wf_groups_def)
  have new: "find_by_address naddr (groups s2) = None"
    using newcomer(3) unfolding gs2 find_by_address_None others_def by simp
  obtain h s3 where s3: "admit os naddr reg ts s2 = Inr s3" "groups s3 = groups s2 @ [h]" "gptr h = next_ptr s2"
    by (rule admit_ok [OF os(1) newcomer(2)])
  have p2: "process_single_packet os reg naddr ts s2 = Inr s3"
    using newcomer gs2 room new s3(1) by (simp add: process_single_packet_def register_group_eq)
  have "buf \<noteq> []" "reg \<noteq> []" using data(1) newcomer(2) by (auto simp: plain_data_def SRT_MIN_LEN_def)
  then have pp: "process_packets os ts s = Inr s3"
    using os(2) data(1,2) newcomer(2) s1(1) p2
    by (simp add: process_packets_def RECV_BATCH_SIZE_def s0_def s2_def MTU_def)
  have "wf_receiver s0" using wf by (simp add: s0_def wf_receiver_def)
  then have "next_ptr s0 \<le> next_ptr s1" using refines_next_ptr [OF refines_process_single_packet [OF s1(1)]] by simp
  moreover have "p < next_ptr s" using wf gin by (auto simp: wf_receiver_def wf_groups_def)
  ultimately have "gptr h \<noteq> p" by (simp add: s3(3) s2_def s0_def)
  then have "get_group p s3 = None" by (auto simp: get_group_ptrs ptrs_def s3(2) gs2(1) others_def)
  moreover have "length (groups s3) = length (groups s)" using len by (simp add: s3(2))
  ultimately show ?thesis using pp by (simp add: handle_event_def)
qed

end
