(* ===== verification/Scoring.thy ===== *)
theory Scoring
  imports Quality
begin

text \<open>
  What the quality evaluator and the load balancer promise: bounded error points, weights that
  follow them, and no bandwidth penalty for the connections that carry the stream.
\<close>

section \<open>More on rounding\<close>

lemma rnd_idem [simp]: "rnd (rnd x) = rnd x"
proof -
  have pos: "rnd (rnd x) = rnd x" if "0 < x" for x
  proof -
    define m where "m = rne (x / ulp x)"
    have r: "rnd x = of_int m * 2 powi (expo x - 52)" using that by (simp add: rnd_def m_def ulp_def)
    have "(0 :: rat) < 2 powi (expo x - 52)" by simp
    then have "(0 :: rat) < of_int m" using rnd_pos [OF that] unfolding r by (rule zero_less_mult_pos2 [rotated])
    then have "0 < m" by simp
    have "rne (x / ulp x) \<le> rne (of_int (2 ^ 53))"
      using significand_bounds(2) [OF that] by (intro rne_mono) simp
    then have "m \<le> 2 ^ 53" unfolding m_def rne_of_int .
    then consider "m < 2 ^ 53" | "m = 2 ^ 53" by linarith
    then show ?thesis
    proof cases
      case 1
      with \<open>0 < m\<close> show ?thesis unfolding r by (rule rnd_exact)
    next
      case 2
      then have "rnd x = of_int 1 * 2 powi (expo x + 1)" by (simp add: r power_int_diff power_int_add)
      then show ?thesis using rnd_exact [of 1 "expo x + 1"] by simp
    qed
  qed
  consider "x = 0" | "0 < x" | "0 < - x" by force
  then show ?thesis by cases (use pos [of x] pos [of "- x"] in \<open>auto simp: rnd_minus\<close>)
qed

lemma expo_double: "0 < x \<Longrightarrow> expo (2 * x) = expo x + 1"
  using expo_bounds [of x] by (intro expo_unique) (simp_all add: power_int_add)

lemma rnd_double: "rnd (2 * x) = 2 * rnd x"
proof -
  have pos: "rnd (2 * x) = 2 * rnd x" if "0 < x" for x
  proof -
    have u: "ulp (2 * x) = 2 * ulp x" using that by (simp add: ulp_def expo_double power_int_diff power_int_add)
    then have "2 * x / ulp (2 * x) = x / ulp x" by simp
    with that u show ?thesis by (simp add: rnd_def)
  qed
  consider "x = 0" | "0 < x" | "0 < - x" by force
  then show ?thesis by cases (use pos [of x] pos [of "- x"] in \<open>auto simp: rnd_minus\<close>)
qed

text \<open>Constants and integers of small magnitude are doubles.\<close>
lemma rnd_1 [simp]: "rnd 1 = 1"
  using rnd_exact [of 1 0] by simp

lemma rnd_100 [simp]: "rnd 100 = 100"
  using rnd_exact [of 100 0] by simp

section \<open>The ladders\<close>

lemma points_bounds:
  "bandwidth_points r \<le> 40" "bandwidth_points_ext r \<le> 10" "loss_points r \<le> 40" "nak_rate_points r \<le> 40"
  "calculate_rtt_error_points st t \<le> 30" "calculate_window_error_points st \<le> 15"
  by (simp_all add: bandwidth_points_def bandwidth_points_ext_def loss_points_def nak_rate_points_def
      calculate_rtt_error_points_def calculate_window_error_points_def Let_def)

lemma nak_points_bound: "fst (calculate_nak_error_points st n) \<le> 40"
  by (simp add: calculate_nak_error_points_def Let_def points_bounds)

lemma telemetry_frame:
  "snd (telemetry_points t n st) = st\<lparr>last_sender_nak_count := last_sender_nak_count (snd (telemetry_points t n st))\<rparr>"
  by (simp add: telemetry_points_def calculate_nak_error_points_def Let_def)

lemma telemetry_bound: "fst (telemetry_points t n st) \<le> 85"
proof (cases "has_valid_sender_telemetry st t")
  case True
  obtain nak st' where nak: "calculate_nak_error_points st n = (nak, st')" by fastforce
  have "nak \<le> 40" using nak_points_bound [of st n] nak by simp
  with points_bounds(5) [of st t] points_bounds(6) [of st'] True nak show ?thesis
    by (simp add: telemetry_points_def) unat_arith
qed (simp add: telemetry_points_def)


lemma unat_sum3:
  assumes "(a :: u32) \<le> of_nat A" "b \<le> of_nat B" "c \<le> of_nat C" "A + B + C < 2 ^ 32"
  shows "unat (a + b + c) \<le> A + B + C"
proof -
  have "unat a \<le> A" "unat b \<le> B" "unat c \<le> C"
    using assms by (simp_all add: word_le_nat_alt unat_of_nat take_bit_nat_eq_self)
  then show ?thesis using assms(4) by unat_arith
qed

section \<open>One evaluation\<close>

definition in_grace :: "time_t \<Rightarrow> connection \<Rightarrow> bool" where
  "in_grace t c \<longleftrightarrow> t - connection_start c < CONNECTION_GRACE_PERIOD"

definition bandwidth_of :: "u64 \<Rightarrow> connection \<Rightarrow> double" where
  "bandwidth_of ms c = qm_bandwidth (fst (measure_connection ms c))"

definition ratio_of :: "u64 \<Rightarrow> connection_group \<Rightarrow> connection \<Rightarrow> double" where
  "ratio_of ms g c =
     performance_ratio (bandwidth_of ms c) (median_bandwidth (map (bandwidth_of ms) (conns g)))
       (min_expected (length (conns g)))"

definition loss_and_telemetry :: "u64 \<Rightarrow> time_t \<Rightarrow> connection \<Rightarrow> u32" where
  "loss_and_telemetry ms t c = loss_points (qm_loss (fst (measure_connection ms c))) +
     fst (telemetry_points t (qm_packets_diff (fst (measure_connection ms c))) (stats c))"

lemma scored_points:
  assumes "\<not> in_grace t c"
  shows "error_points (stats (scored ms g t c)) =
      (if supports_extended_keepalives (stats c) then bandwidth_points_ext (ratio_of ms g c)
       else bandwidth_points (ratio_of ms g c)) + loss_and_telemetry ms t c"
    "legacy_error_points (stats (scored ms g t c)) =
       bandwidth_points (ratio_of ms g c) + loss_points (qm_loss (fst (measure_connection ms c)))"
  using assms
  by (simp_all add: scored_def score_connection_def in_grace_def ratio_of_def bandwidth_of_def [abs_def] loss_and_telemetry_def
      evaluate_connection_legacy_def Let_def split_def add.assoc)

lemma evaluated_nth:
  "evaluation_due ms g t \<Longrightarrow> i < length (conns g) \<Longrightarrow>
     conns (evaluate_group ms g t) ! i = scored (the ms) g t (conns g ! i)"
  by (simp add: evaluate_group_conns)

text \<open>C26. Error points stay small, so that no sum of penalties wraps around: 40 for bandwidth (10 for senders
  with extended keepalives) plus 40 for loss plus 85 for telemetry at most, and 80 in the
  comparison algorithm, for every connection that an evaluation judges.\<close>

theorem error_points_bounded:
  assumes "evaluation_due ms g t" "i < length (conns g)" "\<not> in_grace t (conns g ! i)"
  defines "st \<equiv> stats (conns (evaluate_group ms g t) ! i)"
  shows "unat (error_points st) \<le> (if supports_extended_keepalives (stats (conns g ! i)) then 135 else 165) \<and>
    unat (legacy_error_points st) \<le> 80"
proof -
  let ?c = "conns g ! i" and ?r = "ratio_of (the ms) g (conns g ! i)"
  let ?m = "fst (measure_connection (the ms) (conns g ! i))"
  have st: "error_points st = (if supports_extended_keepalives (stats ?c) then bandwidth_points_ext ?r
      else bandwidth_points ?r) + loss_points (qm_loss ?m) + fst (telemetry_points t (qm_packets_diff ?m) (stats ?c))"
    "legacy_error_points st = bandwidth_points ?r + loss_points (qm_loss ?m) + 0"
    unfolding st_def evaluated_nth [OF assms(1,2)] scored_points [OF assms(3)]
    by (simp_all add: loss_and_telemetry_def add.assoc)
  have "unat (bandwidth_points_ext ?r + loss_points (qm_loss ?m) + fst (telemetry_points t (qm_packets_diff ?m) (stats ?c)))
      \<le> 10 + 40 + 85"
    using points_bounds telemetry_bound by (intro unat_sum3) simp_all
  moreover have "unat (bandwidth_points ?r + loss_points (qm_loss ?m) + fst (telemetry_points t (qm_packets_diff ?m) (stats ?c)))
      \<le> 40 + 40 + 85"
    using points_bounds telemetry_bound by (intro unat_sum3) simp_all
  moreover have "unat (bandwidth_points ?r + loss_points (qm_loss ?m) + 0) \<le> 40 + 40 + 0"
    using points_bounds by (intro unat_sum3) simp_all
  ultimately show ?thesis unfolding st by simp
qed

section \<open>Weights\<close>

lemma weight_for_antitone: "p \<le> q \<Longrightarrow> weight_for q \<le> weight_for p"
  by (auto simp: weight_for_def const_defs)

lemma weight_of_adjusted:
  "weight_percent (stats (adjust_connection_weight c)) = weight_for (error_points (stats c))"
  "error_points (stats (adjust_connection_weight c)) = error_points (stats c)"
  by (simp_all add: adjust_connection_weight_def Let_def)

lemma adjusted_conns:
  assumes "evaluation_due ms g t" "last_load_balance_eval g < t"
  shows "conns (adjust_weights (evaluate_group ms g t) t) =
    map (adjust_connection_weight \<circ> scored (the ms) g t) (conns g)"
proof -
  let ?h = "evaluate_group ms g t"
  have "last_load_balance_eval ?h = last_load_balance_eval g" "last_quality_eval ?h = t" "load_balancing_enabled ?h"
    using assms(1) by (auto simp: evaluate_group_def evaluation_due_def Let_def split: option.split)
  moreover have "conns ?h = map (scored (the ms) g t) (conns g)" using assms(1) by (simp add: evaluate_group_conns)
  ultimately show ?thesis using assms by (simp add: adjust_weights_def evaluation_due_def)
qed

lemma adjust_connection_weight_eq:
  "adjust_connection_weight c = c\<lparr>stats := (stats c)\<lparr>weight_percent := weight_for (error_points (stats c))\<rparr>\<rparr>"
  by (simp add: adjust_connection_weight_def Let_def)

lemma weight_for_levels:
  "weight_for p = (if p < 5 then 100 else if p < 10 then 85 else if p < 15 then 70 else if p < 25 then 55
    else if p < 40 then 40 else 10)"
  by (auto simp: weight_for_def const_defs word_le_nat_alt word_less_nat_alt)

text \<open>C27. The adjustment that follows an evaluation sets the weight of every connection from its error points: 100 below
  5 points, 85 below 10, 70 below 15, 55 below 25, 40 below 40, and 10 from there on. It leaves everything else
  of the evaluated connections and their order as it is, and is not repeated before the next evaluation. So among the
  connections of a group more error points never give a higher weight.\<close>

theorem weights_follow_points:
  assumes "evaluation_due ms g t" "last_load_balance_eval g < t"
  defines "level \<equiv> \<lambda>p :: u32. if p < 5 then 100 else if p < 10 then 85 else if p < 15 then 70 else if p < 25 then 55
      else if p < 40 then 40 else 10"
    and "h \<equiv> adjust_weights (evaluate_group ms g t) t"
  shows "conns h = map (\<lambda>c. c\<lparr>stats := (stats c)\<lparr>weight_percent := level (error_points (stats c))\<rparr>\<rparr>)
      (conns (evaluate_group ms g t)) \<and>
    (\<forall>u. adjust_weights h u = h) \<and>
    (\<forall>c\<in>set (conns h). \<forall>d\<in>set (conns h).
       error_points (stats c) \<le> error_points (stats d) \<longrightarrow> weight_percent (stats d) \<le> weight_percent (stats c))"
proof -
  let ?e = "evaluate_group ms g t"
  have level: "level = weight_for" by (simp add: fun_eq_iff level_def weight_for_levels)
  have e: "last_load_balance_eval ?e = last_load_balance_eval g" "last_quality_eval ?e = t" "load_balancing_enabled ?e"
    "conns ?e \<noteq> []"
    using assms(1) by (auto simp: evaluate_group_conns evaluation_due_def) (auto simp: evaluate_group_def evaluation_due_def Let_def split: option.split)
  then have h: "h = ?e\<lparr>last_load_balance_eval := t, conns := map adjust_connection_weight (conns ?e)\<rparr>"
    using assms(2) by (simp add: h_def adjust_weights_def)
  moreover from e have "adjust_weights h u = h" for u by (simp add: h adjust_weights_def)
  ultimately show ?thesis
    by (auto simp: h level adjust_connection_weight_eq weight_for_antitone)
qed

lemma rnd_not_neg [simp]: "0 \<le> x \<Longrightarrow> \<not> rnd x < 0"
  by (simp add: not_less)

lemma loss_points_0: "loss_points 0 = 0"
  by (simp add: loss_points_def)

lemma min_expected_pos: "100 \<le> min_expected n"
  by (simp add: min_expected_def)

lemma zero_ratio: "performance_ratio 0 m (min_expected n) = 0"
  using min_expected_pos [of n] by (simp add: performance_ratio_def fdiv_def Let_def)

lemma unmeasured:
  "last_eval_time (stats c) = 0 \<Longrightarrow> fst (measure_connection ms c) = \<lparr>qm_bandwidth = 0, qm_loss = 0, qm_packets_diff = 0\<rparr>"
  by (simp add: measure_connection_def)

text \<open>C29. The first evaluation that judges a connection of a sender without extended keepalives gives it
  40 error points and the weight \<open>WEIGHT_CRITICAL\<close>, however much it has carried: the
  grace period leaves \<open>last_eval_time\<close> at zero, so no time has passed for the evaluator and the bandwidth
  comes out as zero.\<close>

theorem first_evaluation_penalised:
  assumes "evaluation_due ms g t" "last_load_balance_eval g < t" "i < length (conns g)"
    and c: "c = conns g ! i" "\<not> in_grace t c" "last_eval_time (stats c) = 0"
      "\<not> supports_extended_keepalives (stats c)" "last_keepalive (stats c) = 0"
  defines "st \<equiv> stats (conns (adjust_weights (evaluate_group ms g t) t) ! i)"
  shows "error_points st = 40 \<and> weight_percent st = WEIGHT_CRITICAL"
proof -
  have pos: "0 < rnd (3/10)" by simp
  have "ratio_of (the ms) g c = 0"
    by (simp add: ratio_of_def bandwidth_of_def unmeasured [OF c(3)] zero_ratio)
  then have "bandwidth_points (ratio_of (the ms) g c) = 40" using pos by (simp add: bandwidth_points_def)
  moreover have "loss_and_telemetry (the ms) t c = 0"
    using c(5)
    by (simp add: loss_and_telemetry_def unmeasured [OF c(3)] loss_points_0 telemetry_points_def
        has_valid_sender_telemetry_def)
  ultimately have "error_points (stats (scored (the ms) g t c)) = 40"
    using c(2,4) by (simp add: scored_points)
  then show ?thesis
    using assms(3) by (simp add: st_def adjusted_conns [OF assms(1,2)] c(1) weight_of_adjusted weight_for_def)
qed

section \<open>The fastest connection\<close>

lemma compute_median_le:
  assumes "vals \<noteq> []" and le: "\<And>v. v \<in> set vals \<Longrightarrow> v \<le> M" and M: "rnd M = M"
  shows "compute_median vals \<le> M"
proof -
  define vs where "vs = sort vals"
  have vs: "vs ! k \<le> M" if "k < length vals" for k
    using le that nth_mem [of k vs] by (simp add: vs_def)
  have len: "0 < length vals" using assms(1) by simp
  have "fdiv (fadd a b) 2 \<le> M" if "a \<le> M" "b \<le> M" for a b
  proof -
    have "rnd (a + b) \<le> rnd (2 * M)" using that by (intro rnd_mono) simp
    then have "rnd (a + b) / 2 \<le> M" by (simp add: rnd_double M)
    then show ?thesis unfolding fdiv_def fadd_def using rnd_mono M by metis
  qed
  then show ?thesis
    using vs [of "length vals div 2"] vs [of "length vals div 2 - 1"] len
    by (simp add: compute_median_def Let_def vs_def less_imp_diff_less)
qed

lemma median_bandwidth_le:
  assumes "\<And>v. v \<in> set bws \<Longrightarrow> v \<le> M" and "0 \<le> M" and "rnd M = M"
  shows "median_bandwidth bws \<le> M"
  using assms compute_median_le [of bws M] compute_median_le [of "filter P bws" M for P]
  by (auto simp: median_bandwidth_def Let_def)

lemma bandwidth_of_double: "rnd (bandwidth_of ms c) = bandwidth_of ms c"
  by (simp add: bandwidth_of_def measure_connection_def Let_def fdiv_def)

text \<open>A connection that reaches both what its group delivers and the minimum expected of it.\<close>

lemma no_bandwidth_penalty:
  assumes "median \<le> bw" "min_exp \<le> bw" "0 < min_exp"
  shows "bandwidth_points (performance_ratio bw median min_exp) = 0 \<and>
    bandwidth_points_ext (performance_ratio bw median min_exp) = 0"
proof -
  define expected where "expected = max (if bw < fmul median GOOD_CONNECTION_THRESHOLD then min_exp else median) min_exp"
  have e: "0 < expected" "expected \<le> bw" using assms by (auto simp: expected_def)
  then have "1 \<le> bw / expected" by simp
  then have r: "1 \<le> performance_ratio bw median min_exp"
    using rnd_mono [of 1 "bw / expected"] e
    unfolding performance_ratio_def Let_def expected_def [symmetric] fdiv_def by simp
  have "rnd (3/10) \<le> 1" "rnd (5/10) \<le> 1" "rnd (7/10) \<le> 1" "rnd (85/100) \<le> 1"
    using rnd_mono [of "3/10" 1] rnd_mono [of "5/10" 1] rnd_mono [of "7/10" 1] rnd_mono [of "85/100" 1] by simp_all
  with r show ?thesis by (simp add: bandwidth_points_def bandwidth_points_ext_def not_less)
qed

text \<open>C28. The fastest connection of a group gets no bandwidth penalty, as long as it reaches the minimum
  expected of a connection: its error points are those of loss and telemetry alone. The median it
  is compared with never exceeds the bandwidth of the fastest connection, rounding included.\<close>

theorem fastest_not_penalised:
  assumes "evaluation_due (Some ms) g t" "i < length (conns g)" "\<not> in_grace t (conns g ! i)"
    and "\<And>d. d \<in> set (conns g) \<Longrightarrow> bandwidth_of ms d \<le> bandwidth_of ms (conns g ! i)"
    and "min_expected (length (conns g)) \<le> bandwidth_of ms (conns g ! i)"
  shows "error_points (stats (conns (evaluate_group (Some ms) g t) ! i)) = loss_and_telemetry ms t (conns g ! i)"
proof -
  have min: "0 < min_expected (length (conns g))" using min_expected_pos [of "length (conns g)"] by simp
  have "median_bandwidth (map (bandwidth_of ms) (conns g)) \<le> bandwidth_of ms (conns g ! i)"
    using assms(4,5) min by (intro median_bandwidth_le bandwidth_of_double) auto
  from no_bandwidth_penalty [OF this assms(5) min]
  have "bandwidth_points (ratio_of ms g (conns g ! i)) = 0" "bandwidth_points_ext (ratio_of ms g (conns g ! i)) = 0"
    by (simp_all add: ratio_of_def)
  then show ?thesis
    unfolding evaluated_nth [OF assms(1,2)] by (simp add: scored_points [OF assms(3)])
qed

end
