(* ===== verification/Scrape.thy ===== *)
theory Scrape
  imports Exporter
begin

text \<open>
  What a scrape delivers: the exposition of the counters read back by a reader of the text format,
  and the delivery of a response over a connection that takes it in pieces.
\<close>

section \<open>Numbers\<close>

definition digit :: "char \<Rightarrow> nat" where
  "digit c = of_char c - 48"

fun read_nat :: "nat \<Rightarrow> string \<Rightarrow> nat" where
  "read_nat n [] = n"
| "read_nat n (c # cs) = read_nat (10 * n + digit c) cs"

lemma read_nat_append: "read_nat n (xs @ ys) = read_nat (read_nat n xs) ys"
  by (induction xs arbitrary: n) simp_all

lemma digit_char: "d < 10 \<Longrightarrow> digit (char_of (48 + d)) = d"
  by (simp add: digit_def)

lemma read_nat_to_string: "read_nat 0 (nat_to_string n) = n"
proof (induction n rule: nat_to_string.induct)
  case (1 n)
  show ?case
  proof (cases "n < 10")
    case True
    then show ?thesis by (simp add: nat_to_string.simps [of n] digit_char)
  next
    case False
    with 1 show ?thesis
      by (simp add: nat_to_string.simps [of n] read_nat_append digit_char)
  qed
qed

lemma digits_only: "c \<in> set (nat_to_string n) \<Longrightarrow> 48 \<le> (of_char c :: nat) \<and> (of_char c :: nat) < 58"
proof (induction n rule: nat_to_string.induct)
  case (1 n)
  show ?case
  proof (cases "n < 10")
    case True
    with 1(2) show ?thesis by (simp add: nat_to_string.simps [of n])
  next
    case False
    have "n mod 10 < 10" by simp
    with 1 False show ?thesis by (auto simp: nat_to_string.simps [of n])
  qed
qed

section \<open>The text format\<close>

fun split_lines :: "string \<Rightarrow> string list" where
  "split_lines [] = []"
| "split_lines (c # cs) =
     (if c = CHR 0x0A then [] # split_lines cs
      else case split_lines cs of [] \<Rightarrow> [[c]] | l # ls \<Rightarrow> (c # l) # ls)"

text \<open>The samples of an exposition: the lines that are no comments, split at the first blank.\<close>

definition samples :: "string \<Rightarrow> (string \<times> nat) list" where
  "samples tx =
     map (\<lambda>l. (takeWhile (\<lambda>c. c \<noteq> CHR '' '') l, read_nat 0 (tl (dropWhile (\<lambda>c. c \<noteq> CHR '' '') l))))
       (filter (\<lambda>l. take 1 l \<noteq> ''#'') (split_lines tx))"

lemma split_lines_line: "CHR 0x0A \<notin> set l \<Longrightarrow> split_lines (l @ nl @ tx) = l # split_lines tx"
  by (induction l) (auto simp: nl_def)

lemma samples_comment:
  "CHR 0x0A \<notin> set l \<Longrightarrow> samples (''#'' @ l @ nl @ tx) = samples tx"
  using split_lines_line [of "''#'' @ l" tx] by (simp add: samples_def)

lemma samples_line:
  assumes "CHR 0x0A \<notin> set k" "CHR '' '' \<notin> set k" "take 1 k \<noteq> ''#''" "k \<noteq> []"
  shows "samples (k @ '' '' @ nat_to_string n @ nl @ tx) = (k, n) # samples tx"
proof -
  have "CHR 0x0A \<notin> set (nat_to_string n)" using digits_only by fastforce
  then have "split_lines ((k @ '' '' @ nat_to_string n) @ nl @ tx) = (k @ '' '' @ nat_to_string n) # split_lines tx"
    using assms by (intro split_lines_line) auto
  moreover have "takeWhile (\<lambda>c. c \<noteq> CHR '' '') (k @ '' '' @ nat_to_string n) = k"
    "dropWhile (\<lambda>c. c \<noteq> CHR '' '') (k @ '' '' @ nat_to_string n) = '' '' @ nat_to_string n"
    using assms(2) by (induction k) auto
  moreover have "take 1 (k @ '' '' @ nat_to_string n) \<noteq> ''#''" using assms(3,4) by (cases k) simp_all
  ultimately show ?thesis by (simp add: samples_def read_nat_to_string)
qed

definition clean_row :: "def_row \<Rightarrow> bool" where
  "clean_row r = (case r of (c, name, labels, hlp) \<Rightarrow>
     CHR 0x0A \<notin> set (name @ labels @ hlp) \<and> CHR '' '' \<notin> set (name @ labels) \<and>
     name \<noteq> [] \<and> take 1 (name @ labels) \<noteq> ''#'')"

lemma samples_render:
  assumes "\<And>r. r \<in> set rows \<Longrightarrow> clean_row r"
  shows "samples (render_counters vs prev rows @ tx) =
    map (\<lambda>(c, name, labels, hlp). (name @ labels, unat (vs c))) rows @ samples tx"
  using assms
proof (induction rows arbitrary: prev)
  case (Cons r rows)
  obtain c name labels hlp where r: "r = (c, name, labels, hlp)" by (cases r) auto
  have clean: "CHR 0x0A \<notin> set (name @ labels)" "CHR 0x0A \<notin> set name" "CHR 0x0A \<notin> set hlp"
    "CHR '' '' \<notin> set (name @ labels)" "take 1 (name @ labels) \<noteq> ''#''" "name @ labels \<noteq> []"
    using Cons.prems [of r] by (auto simp: r clean_row_def)
  have v: "to_string (uint (vs c)) = nat_to_string (unat (vs c))"
    by (simp add: to_string_def)
  have line: "samples (counter_line name labels (vs c) @ render_counters vs name rows @ tx) =
      (name @ labels, unat (vs c)) # samples (render_counters vs name rows @ tx)"
    using samples_line [OF clean(1,4,5,6), of "unat (vs c)" "render_counters vs name rows @ tx"]
    by (simp add: counter_line_def v)
  have "samples (help_and_type name hlp ''counter'' @ t) = samples t" for t
    using samples_comment [of "'' HELP '' @ name @ '' '' @ hlp" "''# TYPE '' @ name @ '' counter'' @ nl @ t"]
      samples_comment [of "'' TYPE '' @ name @ '' counter''" t] clean(2,3)
    by (simp add: help_and_type_def)
  with line Cons.IH [of name] Cons.prems show ?case by (simp add: r)
qed simp

lemma kDefs_clean: "list_all clean_row kDefs"
  by (simp add: kDefs_def clean_row_def)

lemma kDefs_counters: "map fst kDefs =
   [AUTH_FAILURES, BYTES_RECEIVED, CONN_REGISTRATIONS, CONN_REG_NO_GROUP, CONN_REG_GROUP_MISMATCH, CONN_REG_MAX_CONNS,
    CONN_REG_SEND_ERROR, CONNECTIONS_REMOVED, FORWARD_DROPPED, FORWARD_ERRORS, FORWARDED_BYTES, FORWARDED_PACKETS,
    GROUP_REGISTRATIONS, GROUP_REG_THROTTLED, GROUP_REG_TABLE_FULL, GROUP_REG_DUP_ADDR, GROUP_REG_SEND_ERROR,
    GROUPS_REMOVED_IDLE, GROUPS_REMOVED_AUTH, GROUPS_REMOVED_SRT_ERROR, GROUPS_REMOVED_EVICTED, NAKS_RECEIVED,
    NAKS_SUPPRESSED, PACKETS_RECEIVED, RECOVERY_STARTED, RECOVERY_COMPLETED, RECOVERY_FAILED, RECV_BATCHES, SEND_ERR_ACK,
    SEND_ERR_KEEPALIVE, SEND_ERR_DOWNSTREAM, SRT_BYTES_RECEIVED, SRT_PACKETS_RECEIVED]"
  by (simp add: kDefs_def)

lemma kDefs_total: "c \<in> fst ` set kDefs"
  unfolding set_map [symmetric] kDefs_counters by (cases c) simp_all

lemma kDefs_distinct: "distinct (map (\<lambda>(c, name, labels, hlp). name @ labels) kDefs)"
  by (simp add: kDefs_def)

text \<open>C30. A scrape reads back every counter: the exposition contains exactly one sample for each event counter,
  no two with the same name and labels, and a reader of the text format gets from it the exact
  64-bit value.\<close>

theorem exposition_roundtrip:
  "map_of (samples (render_counters vs [] kDefs)) =
     map_of (map (\<lambda>(c, name, labels, hlp). (name @ labels, unat (counter_value c vs))) kDefs) \<and>
   distinct (map fst (samples (render_counters vs [] kDefs))) \<and>
   (\<forall>c. \<exists>name labels hlp. (c, name, labels, hlp) \<in> set kDefs \<and>
      map_of (samples (render_counters vs [] kDefs)) (name @ labels) = Some (unat (counter_value c vs)))"
proof -
  let ?row = "\<lambda>(c, name, labels, hlp). (name @ labels, unat (vs c))"
  have s: "samples (render_counters vs [] kDefs) = map ?row kDefs"
    using samples_render [of kDefs vs "[]" "[]"] kDefs_clean by (simp add: list_all_iff samples_def)
  have "map fst (map ?row kDefs) = map (\<lambda>(c, name, labels, hlp). name @ labels) kDefs"
    by (simp add: comp_def split_def)
  then have d: "distinct (map fst (map ?row kDefs))" using kDefs_distinct by (simp only:)
  have "\<exists>name labels hlp. (c, name, labels, hlp) \<in> set kDefs \<and>
      map_of (map ?row kDefs) (name @ labels) = Some (unat (vs c))" for c
  proof -
    obtain name labels hlp where r: "(c, name, labels, hlp) \<in> set kDefs" using kDefs_total [of c] by force
    then have "(name @ labels, unat (vs c)) \<in> set (map ?row kDefs)" by force
    with d have "map_of (map ?row kDefs) (name @ labels) = Some (unat (vs c))" by (rule map_of_is_SomeI)
    with r show ?thesis by blast
  qed
  with d show ?thesis unfolding s counter_value_def by blast
qed

section \<open>Delivery\<close>

definition delivered :: "int \<Rightarrow> effect list \<Rightarrow> string" where
  "delivered client es = concat (map (\<lambda>e. case e of Http_Sent fd tx \<Rightarrow> if fd = client then tx else [] | _ \<Rightarrow> []) es)"

lemma send_response_delivers:
  assumes "\<And>t rest. rest \<noteq> [] \<Longrightarrow> (case os_http_send os t client rest of (ret, interrupted) \<Rightarrow>
      0 < ret \<or> interrupted \<and> t < N)"
  shows "\<exists>s'. send_response os client rest s = Some s' \<and> delivered client (out s') = delivered client (out s) @ rest"
proof (induction "length rest + (N - tick s)" arbitrary: rest s rule: less_induct)
  case less
  show ?case
  proof (cases "rest = []")
    case True
    then show ?thesis by (simp add: send_response.simps)
  next
    case False
    obtain ret intr where r: "os_http_send os (tick s) client rest = (ret, intr)" by fastforce
    show ?thesis
    proof (cases "ret \<le> 0")
      case True
      with assms [OF False, of "tick s"] r have i: "intr" "tick s < N" by auto
      with less [of rest "called s"] True False r show ?thesis
        by (subst send_response.simps) auto
    next
      case pos: False
      define s1 where "s1 = emit (Http_Sent client (take (nat ret) rest)) (called s)"
      have "length (drop (nat ret) rest) + (N - tick s1) < length rest + (N - tick s)"
      proof -
        have "0 < length rest" "0 < nat ret" using False pos by simp_all
        then have "length rest - nat ret < length rest" by simp
        then show ?thesis by (simp add: s1_def)
      qed
      from less [OF this] obtain s' where "send_response os client (drop (nat ret) rest) s1 = Some s'"
        "delivered client (out s') = delivered client (out s1) @ drop (nat ret) rest" by blast
      with False pos r show ?thesis by (subst send_response.simps) (simp add: s1_def delivered_def)
    qed
  qed
qed

text \<open>C31. A scrape is answered in full: as long as \<open>send\<close> accepts at least one byte, or is interrupted only finitely
  often, the loop that writes a response ends, and the pieces it wrote make up the response.\<close>

theorem response_delivered:
  assumes "\<And>t rest. rest \<noteq> [] \<Longrightarrow> (case os_http_send os t client rest of (ret, interrupted) \<Rightarrow>
      0 < ret \<or> interrupted \<and> t < N)"
  shows "\<exists>s'. send_response os client (http_response body) s = Some s' \<and>
    delivered client (out s') = delivered client (out s) @ http_response body"
  using assms by (rule send_response_delivers)

end
