(* ===== verification/Cleanup.thy ===== *)
theory Cleanup
  imports Srtla_Handler
begin

text \<open>
  What one call of \<open>cleanup_inactive\<close> does, with the callback that the main loop passes to it.
\<close>

text \<open>The datagrams sent on the SRTLA socket.\<close>

fun sent_to :: "effect list \<Rightarrow> (sockaddr_storage \<times> byte list) list" where
  "sent_to [] = []"
| "sent_to (Sent_To a b # es) = (a, b) # sent_to es"
| "sent_to (e # es) = sent_to es"

lemma sent_to_append [simp]: "sent_to (es @ fs) = sent_to es @ sent_to fs"
  by (induction es rule: sent_to.induct) simp_all

definition keepalive_to :: "connection \<Rightarrow> sockaddr_storage \<times> byte list" where
  "keepalive_to c = (address c, pad32 (put_be16 SRTLA_TYPE_KEEPALIVE))"

lemma send_keepalive_effect:
  "last_run (send_keepalive os c t s) = last_run s"
  "sent_to (out (send_keepalive os c t s)) = sent_to (out s) @ [keepalive_to c]"
  by (simp_all add: send_keepalive_def send_padded_def keepalive_to_def Let_def)

lemma check_recovery_effect [simp]:
  "last_run (snd (check_recovery t c s)) = last_run s" "out (snd (check_recovery t c s)) = out s"
  by (simp_all add: check_recovery_def)

lemma info_file_effect [simp]:
  "last_run (write_socket_info_file os g s) = last_run s"
  "sent_to (out (write_socket_info_file os g s)) = sent_to (out s)"
  "last_run (destroy_group os g s) = last_run s" "sent_to (out (destroy_group os g s)) = sent_to (out s)"
  by (simp_all add: write_socket_info_file_def destroy_group_def remove_socket_info_file_def get_local_port_def Let_def)

lemma keepalive_to_settled [simp]: "keepalive_to (settle_recovery t c) = keepalive_to c"
  by (simp add: keepalive_to_def)

lemma cleanup_conns_effect:
  fixes os :: os and t :: time_t
  defines "r \<equiv> cleanup_conns (Some (send_keepalive os)) t"
  shows "last_run (snd (r cs s)) = last_run s"
    "sent_to (out (snd (r cs s))) = sent_to (out s) @
       map keepalive_to (filter (\<lambda>c. t \<le> last_rcvd c + 15 \<and> last_rcvd c + 1 < t) cs)"
  unfolding r_def
  by (induction cs arbitrary: s)
    (auto simp: Let_def split_def check_recovery_fst send_keepalive_effect conn_timed_out_def const_defs)

lemma cleanup_groups_effect:
  fixes os :: os and t :: time_t
  defines "r \<equiv> cleanup_groups os (Some (send_keepalive os)) t"
  shows "last_run (snd (r gs s)) = last_run s"
    "sent_to (out (snd (r gs s))) = sent_to (out s) @
       concat (map (\<lambda>g. map keepalive_to (filter (\<lambda>c. t \<le> last_rcvd c + 15 \<and> last_rcvd c + 1 < t) (conns g))) gs)"
  unfolding r_def
  by (induction gs arbitrary: s) (simp_all add: Let_def split_def cleanup_conns_effect)

text \<open>C33. The cleanup. A call within 3 seconds of the previous run changes nothing. Any other call is a run, and
  removes exactly the connections that were silent for more than 15 seconds, and then exactly the
  groups left without a connection that are older than 30 seconds, or than 5 if they never carried data. What
  stays keeps its order and its contents, but for a recovery that began more than 5 seconds ago, which ends whether or not
  the connection was heard from meanwhile. Every connection that stays and was silent for more than a second is sent
  one keepalive, and nothing else is sent on the SRTLA socket.\<close>

theorem cleanup_removes_exactly_inactive:
  "let s' = cleanup_inactive os (Some (send_keepalive os)) t s
   in if t < last_run s + 3 then s' = s
      else last_run s' = t \<and>
        groups s' =
          map (\<lambda>g. g\<lparr>conns :=
              map (\<lambda>c. if 0 < recovery_start c \<and> 5 < t - recovery_start c then c\<lparr>recovery_start := 0\<rparr> else c)
                (filter (\<lambda>c. t \<le> last_rcvd c + 15) (conns g))\<rparr>)
            (filter (\<lambda>g. list_ex (\<lambda>c. t \<le> last_rcvd c + 15) (conns g) \<or>
                t \<le> created_at g + (if data_seen g then 30 else 5)) (groups s)) \<and>
        sent_to (out s') = sent_to (out s) @ concat (map (\<lambda>g. map (\<lambda>c. (address c, pad32 (put_be16 SRTLA_TYPE_KEEPALIVE)))
          (filter (\<lambda>c. t \<le> last_rcvd c + 15 \<and> last_rcvd c + 1 < t) (conns g))) (groups s))"
proof -
  let ?s = "s\<lparr>last_run := t\<rparr>" and ?cb = "Some (send_keepalive os)"
  have live: "live_conns t g = map (\<lambda>c. if 0 < recovery_start c \<and> 5 < t - recovery_start c then c\<lparr>recovery_start := 0\<rparr> else c)
      (filter (\<lambda>c. t \<le> last_rcvd c + 15) (conns g))" for g
    by (simp add: live_conns_def settle_recovery_def conn_timed_out_def const_defs not_less cong: map_cong)
  have stays: "(\<not> reaped t g) = (list_ex (\<lambda>c. t \<le> last_rcvd c + 15) (conns g) \<or>
      t \<le> created_at g + (if data_seen g then 30 else 5))" for g
    by (auto simp: reaped_def conn_timed_out_def list_ex_iff const_defs not_less)
  have eff: "last_run (cleanup_inactive os ?cb t s) = t"
    "sent_to (out (cleanup_inactive os ?cb t s)) = sent_to (out s) @ concat (map (\<lambda>g. map keepalive_to
       (filter (\<lambda>c. t \<le> last_rcvd c + 15 \<and> last_rcvd c + 1 < t) (conns g))) (groups s))"
    if "\<not> last_run s + CLEANUP_PERIOD > t"
    using that cleanup_groups_effect [where s = ?s and os = os and t = t]
    by (auto simp: cleanup_inactive_def Let_def split_def)
  show ?thesis
  proof (cases "last_run s + CLEANUP_PERIOD > t")
    case True
    then show ?thesis by (simp add: cleanup_inactive_def const_defs)
  next
    case False
    then have "\<not> t < last_run s + 3" by (simp add: const_defs)
    with eff [OF False] cleanup_inactive_groups [of os ?cb t s] False show ?thesis
      by (simp add: Let_def live stays keepalive_to_def [abs_def])
  qed
qed

end
