(* ===== verification/Sender.thy ===== *)
theory Sender
  imports Connection "HOL-Library.Signed_Division"
begin

text \<open>
  The sending side \<open>srtla_send\<close> (\<open>sender.cpp\<close>): one UDP socket per source address, the choice of a
  link for every packet of the SRT caller, the congestion windows the acknowledgements drive, the
  registration with the receiver and the housekeeping. Connections are objects with identities,
  in the order of the linked list \<open>conns\<close>. System calls, \<open>inet_addr\<close> and \<open>getaddrinfo\<close> are parameters
  as in the receiver; the contents of buffers and variables that are read before they are written are
  parameters too. The \<open>int\<close> counters of a link are unbounded integers (\<open>Sender_Counters\<close> shows how
  far they can grow); the signed overflow that a single packet can provoke, in the loop over a NAK range, is
  a failure.
\<close>

section \<open>Constants\<close>

definition PKT_LOG_SZ :: nat where [const_defs]: "PKT_LOG_SZ = 256"
definition SND_CONN_TIMEOUT :: time_t where [const_defs]: "SND_CONN_TIMEOUT = 4"
definition REG2_TIMEOUT :: time_t where [const_defs]: "REG2_TIMEOUT = 4"
definition REG3_TIMEOUT :: time_t where [const_defs]: "REG3_TIMEOUT = 4"
definition GLOBAL_TIMEOUT :: u64 where [const_defs]: "GLOBAL_TIMEOUT = 10"
definition IDLE_TIME :: time_t where [const_defs]: "IDLE_TIME = 1"
definition WINDOW_MIN :: int where [const_defs]: "WINDOW_MIN = 1"
definition WINDOW_DEF :: int where [const_defs]: "WINDOW_DEF = 20"
definition WINDOW_MAX :: int where [const_defs]: "WINDOW_MAX = 60"
definition WINDOW_MULT :: int where [const_defs]: "WINDOW_MULT = 1000"
definition WINDOW_DECR :: int where [const_defs]: "WINDOW_DECR = 100"
definition WINDOW_INCR :: int where [const_defs]: "WINDOW_INCR = 30"
definition HOUSEKEEPING_INT :: u64 where [const_defs]: "HOUSEKEEPING_INT = 1000"

section \<open>The environment and the state\<close>

record sender_os =
  so_sendto :: "nat \<Rightarrow> int \<Rightarrow> int \<Rightarrow> byte list \<Rightarrow> int"
  so_recvfrom :: "nat \<Rightarrow> int \<Rightarrow> (byte list \<times> sockaddr_storage) option"
  so_stack :: "nat \<Rightarrow> byte list"
  so_clock :: "nat \<Rightarrow> timespec option"
  so_stale_time :: "nat \<Rightarrow> time_t"
  so_socket :: "nat \<Rightarrow> int"
  so_setsockopt :: "nat \<Rightarrow> int \<Rightarrow> int"
  so_bind :: "nat \<Rightarrow> int \<Rightarrow> int"
  so_ready :: "nat \<Rightarrow> int \<Rightarrow> bool"
  so_lines :: "nat \<Rightarrow> string list option"
  so_inet_addr :: "string \<Rightarrow> byte list"
  so_random :: "nat \<Rightarrow> byte list option"
  so_getaddrinfo :: "nat \<Rightarrow> sockaddr_storage list option"

text \<open>The calls that send a datagram, whether or not they succeed, and the descriptors opened and closed.\<close>
datatype sender_effect =
    To_Srtla int "byte list"
  | To_Srt sockaddr_storage "byte list"
  | Snd_Opened int
  | Snd_Closed int

text \<open>\<open>exit(EXIT_FAILURE)\<close>, an uncaught exception, a read past the end of a buffer, a signed overflow.\<close>
datatype sender_failure = Exit_Failure | Uncaught | Out_Of_Bounds | Signed_Overflow

record conn_t =
  cptr :: nat
  c_fd :: int
  c_last_rcvd :: time_t
  c_last_sent :: time_t
  c_src :: sockaddr_storage
  c_removed :: bool
  in_flight_pkts :: int
  c_window :: int
  pkt_idx :: int
  pkt_log :: "int list"

record sender =
  links :: "conn_t list"
  do_update_conns :: bool
  addrs :: "sockaddr_storage list"
  srtla_addr :: sockaddr_storage
  srt_caller :: sockaddr_storage
  listenfd :: int
  active_connections :: int
  has_connected :: bool
  pending_reg2_conn :: "nat option"
  pending_reg_timeout :: time_t
  srtla_id :: "byte list"
  active_fds :: "int list"
  max_act_fd :: int
  all_failed_at :: u64
  last_ran :: u64
  snd_fresh :: nat
  snd_tick :: nat
  snd_out :: "sender_effect list"

definition snd_emit :: "sender_effect \<Rightarrow> sender \<Rightarrow> sender" where
  "snd_emit e s = s\<lparr>snd_out := snd_out s @ [e]\<rparr>"

definition snd_called :: "sender \<Rightarrow> sender" where
  "snd_called s = s\<lparr>snd_tick := Suc (snd_tick s)\<rparr>"

definition get_link :: "nat \<Rightarrow> sender \<Rightarrow> conn_t option" where
  "get_link p s = find (\<lambda>c. cptr c = p) (links s)"

definition upd_link :: "nat \<Rightarrow> (conn_t \<Rightarrow> conn_t) \<Rightarrow> sender \<Rightarrow> sender" where
  "upd_link p f s = s\<lparr>links := map (\<lambda>c. if cptr c = p then f c else c) (links s)\<rparr>"

section \<open>Descriptors\<close>

definition add_active_fd :: "int \<Rightarrow> sender \<Rightarrow> int \<times> sender" where
  "add_active_fd fd s =
     (if fd < 0 then (-1, s)
      else (0, s\<lparr>max_act_fd := (if fd > max_act_fd s then fd else max_act_fd s),
                 active_fds := List.insert fd (active_fds s)\<rparr>))"

definition remove_active_fd :: "int \<Rightarrow> sender \<Rightarrow> int \<times> sender" where
  "remove_active_fd fd s =
     (if fd < 0 then (-1, s) else (0, s\<lparr>active_fds := removeAll fd (active_fds s)\<rparr>))"

definition snd_close :: "int \<Rightarrow> sender \<Rightarrow> sender" where
  "snd_close fd s = (if fd < 0 then snd_called s else snd_emit (Snd_Closed fd) (snd_called s))"

section \<open>Registration packets\<close>

definition send_srtla :: "sender_os \<Rightarrow> int \<Rightarrow> int \<Rightarrow> byte list \<Rightarrow> sender \<Rightarrow> int \<times> sender" where
  "send_srtla os fd n buf s =
     (so_sendto os (snd_tick s) fd n buf, snd_emit (To_Srtla fd buf) (snd_called s))"

definition send_reg1 :: "sender_os \<Rightarrow> conn_t \<Rightarrow> sender \<Rightarrow> int \<times> sender" where
  "send_reg1 os c s =
     (if c_fd c < 0 then (-1, s)
      else let (ret, s) = send_srtla os (c_fd c) SRTLA_TYPE_REG1_LEN (put_be16 SRTLA_TYPE_REG1 @ srtla_id s) s
           in (if ret \<noteq> SRTLA_TYPE_REG1_LEN then -1 else 0, s))"

definition send_reg2 :: "sender_os \<Rightarrow> conn_t \<Rightarrow> sender \<Rightarrow> int \<times> sender" where
  "send_reg2 os c s =
     (if c_fd c < 0 then (-1, s)
      else let (ret, s) = send_srtla os (c_fd c) SRTLA_TYPE_REG2_LEN (put_be16 SRTLA_TYPE_REG2 @ srtla_id s) s
           in (if ret = SRTLA_TYPE_REG2_LEN then 0 else -1, s))"

definition snd_keepalive :: "sender_os \<Rightarrow> conn_t \<Rightarrow> sender \<Rightarrow> sender" where
  "snd_keepalive os c s = snd (send_srtla os (c_fd c) 2 (put_be16 SRTLA_TYPE_KEEPALIVE) s)"

section \<open>Packets of the SRT caller\<close>

definition reg_pkt :: "int \<Rightarrow> conn_t \<Rightarrow> conn_t" where
  "reg_pkt packet c =
     c\<lparr>pkt_log := (pkt_log c)[nat (pkt_idx c) := packet],
       pkt_idx := (pkt_idx c + 1) mod int PKT_LOG_SZ,
       in_flight_pkts := in_flight_pkts c + 1\<rparr>"

definition link_timed_out :: "conn_t \<Rightarrow> time_t \<Rightarrow> bool" where
  "link_timed_out c ts \<longleftrightarrow> c_last_rcvd c + SND_CONN_TIMEOUT < ts"

definition score :: "conn_t \<Rightarrow> int" where
  "score c = c_window c sdiv (in_flight_pkts c + 1)"

fun best_link :: "time_t \<Rightarrow> conn_t list \<Rightarrow> conn_t option \<Rightarrow> int \<Rightarrow> conn_t option" where
  "best_link t [] min_c max_score = min_c"
| "best_link t (c # cs) min_c max_score =
     (if link_timed_out c t then best_link t cs min_c max_score
      else if score c > max_score then best_link t cs (Some c) (score c)
      else best_link t cs min_c max_score)"

definition select_conn :: "sender_os \<Rightarrow> sender \<Rightarrow> conn_t option \<times> sender" where
  "select_conn os s =
     (case get_seconds (so_clock os (snd_tick s)) of
        None \<Rightarrow> (None, snd_called s)
      | Some t \<Rightarrow>
          (case best_link t (links s) None (-1) of
             None \<Rightarrow> (None, snd_called s)
           | Some c \<Rightarrow> (Some (c\<lparr>c_last_sent := t\<rparr>),
                         upd_link (cptr c) (\<lambda>c. c\<lparr>c_last_sent := t\<rparr>) (snd_called s))))"

definition recv_caller :: "sender_os \<Rightarrow> int \<Rightarrow> sender \<Rightarrow> int \<times> byte list \<times> sender" where
  "recv_caller os fd s =
     (case so_recvfrom os (snd_tick s) fd of
        None \<Rightarrow> (-1, [], snd_called s)
      | Some (data, from) \<Rightarrow>
          (int (length (take MTU data)), take MTU data, (snd_called s)\<lparr>srt_caller := from\<rparr>))"

definition snd_handle_srt_data :: "sender_os \<Rightarrow> int \<Rightarrow> sender \<Rightarrow> sender" where
  "snd_handle_srt_data os fd s =
     (let (n, buf, s) = recv_caller os fd s
      in case select_conn os s of
           (None, s) \<Rightarrow> s
         | (Some c, s) \<Rightarrow>
             let sn = get_srt_sn buf n;
                 (ret, s) = send_srtla os (c_fd c) n buf s
             in if ret = n then if sn \<ge> 0 then upd_link (cptr c) (reg_pkt sn) s else s
                else upd_link (cptr c) (\<lambda>c. c\<lparr>c_last_rcvd := 1\<rparr>) s)"

section \<open>Acknowledgements\<close>

definition get_pkt_idx :: "int \<Rightarrow> int \<Rightarrow> int" where
  "get_pkt_idx idx increment =
     (let idx = idx + increment; idx = (if idx < 0 then idx + int PKT_LOG_SZ else idx)
      in idx mod int PKT_LOG_SZ)"

text \<open>
  The loops over the log go backwards from the newest entry and stop at the position that is written
  next; they make less than \<open>PKT_LOG_SZ\<close> steps.
\<close>

fun find_in_log :: "nat \<Rightarrow> int list \<Rightarrow> int \<Rightarrow> int \<Rightarrow> int \<Rightarrow> int option" where
  "find_in_log 0 log stop i packet = None"
| "find_in_log (Suc fuel) log stop i packet =
     (if i = stop then None
      else if log ! nat i = packet then Some i
      else find_in_log fuel log stop (get_pkt_idx i (-1)) packet)"

definition log_position :: "int \<Rightarrow> conn_t \<Rightarrow> int option" where
  "log_position packet c =
     find_in_log PKT_LOG_SZ (pkt_log c) (pkt_idx c) (get_pkt_idx (pkt_idx c) (-1)) packet"

definition nak_link :: "int \<Rightarrow> conn_t \<Rightarrow> conn_t" where
  "nak_link i c =
     c\<lparr>pkt_log := (pkt_log c)[nat i := -1],
       c_window := max (c_window c - WINDOW_DECR) (WINDOW_MIN * WINDOW_MULT)\<rparr>"

fun register_nak :: "int \<Rightarrow> conn_t list \<Rightarrow> conn_t list" where
  "register_nak packet [] = []"
| "register_nak packet (c # cs) =
     (case log_position packet c of
        Some i \<Rightarrow> nak_link i c # cs
      | None \<Rightarrow> c # register_nak packet cs)"

definition ack_link :: "int \<Rightarrow> conn_t \<Rightarrow> conn_t" where
  "ack_link i c =
     (let c = (if in_flight_pkts c > 0 then c\<lparr>in_flight_pkts := in_flight_pkts c - 1\<rparr> else c);
          c = c\<lparr>pkt_log := (pkt_log c)[nat i := -1]\<rparr>
      in if in_flight_pkts c * WINDOW_MULT > c_window c
         then c\<lparr>c_window := c_window c + (WINDOW_INCR - 1)\<rparr> else c)"

definition grow_link :: "conn_t \<Rightarrow> conn_t" where
  "grow_link c =
     (if c_last_rcvd c \<noteq> 0 then c\<lparr>c_window := min (c_window c + 1) (WINDOW_MAX * WINDOW_MULT)\<rparr> else c)"

fun register_srtla_ack :: "int \<Rightarrow> bool \<Rightarrow> conn_t list \<Rightarrow> conn_t list" where
  "register_srtla_ack ack found [] = []"
| "register_srtla_ack ack found (c # cs) =
     (case (if found then None else log_position ack c) of
        Some i \<Rightarrow> grow_link (ack_link i c) # register_srtla_ack ack True cs
      | None \<Rightarrow> grow_link c # register_srtla_ack ack found cs)"

fun clear_acked :: "nat \<Rightarrow> int list \<Rightarrow> int \<Rightarrow> int \<Rightarrow> int \<Rightarrow> int \<Rightarrow> int list \<times> int" where
  "clear_acked 0 log stop i ack count = (log, count)"
| "clear_acked (Suc fuel) log stop i ack count =
     (if i = stop then (log, count)
      else if log ! nat i < ack
      then clear_acked fuel (log[nat i := -1]) stop (get_pkt_idx i (-1)) ack count
      else clear_acked fuel log stop (get_pkt_idx i (-1)) ack (count + 1))"

definition conn_register_srt_ack :: "int \<Rightarrow> conn_t \<Rightarrow> conn_t" where
  "conn_register_srt_ack ack c =
     (case clear_acked PKT_LOG_SZ (pkt_log c) (pkt_idx c) (get_pkt_idx (pkt_idx c) (-1)) ack 0 of
        (log, count) \<Rightarrow> c\<lparr>pkt_log := log, in_flight_pkts := count\<rparr>)"

definition register_srt_ack :: "int \<Rightarrow> conn_t list \<Rightarrow> conn_t list" where
  "register_srt_ack ack cs = map (conn_register_srt_ack ack) cs"

section \<open>Packets of the receiver\<close>

text \<open>\<open>be32toh(ids[i])\<close> on the buffer of \<open>MTU\<close> bytes.\<close>

definition read_id :: "byte list \<Rightarrow> nat \<Rightarrow> u32 option" where
  "read_id buf i = (if 4 * i + 4 \<le> MTU then Some (be32 buf (4 * i)) else None)"

text \<open>The loop over a range of lost packets. \<open>lost\<close> is an \<open>int32_t\<close>, compared as an unsigned number.\<close>

function nak_range :: "int \<Rightarrow> u32 \<Rightarrow> conn_t list \<Rightarrow> sender_failure + conn_t list" where
  "nak_range lost last_id cs =
     (if word_of_int lost \<le> last_id then
        if lost \<ge> 2 ^ 31 - 1 then Inl Signed_Overflow
        else nak_range (lost + 1) last_id (register_nak lost cs)
      else Inr cs)"
  by pat_completeness auto
termination by (relation "measure (\<lambda>(lost, last_id, cs). nat (2 ^ 31 - 1 - lost))") auto

declare nak_range.simps [simp del]

fun nak_ids :: "nat \<Rightarrow> byte list \<Rightarrow> nat \<Rightarrow> nat \<Rightarrow> conn_t list \<Rightarrow> sender_failure + conn_t list" where
  "nak_ids 0 buf words i cs = Inr cs"
| "nak_ids (Suc fuel) buf words i cs =
     (if i < words then
        case read_id buf i of
          None \<Rightarrow> Inl Out_Of_Bounds
        | Some ident \<Rightarrow>
            if ident AND push_bit 31 1 \<noteq> 0 then
              (case read_id buf (i + 1) of
                 None \<Rightarrow> Inl Out_Of_Bounds
               | Some last_id \<Rightarrow>
                   (case nak_range (uint (ident AND 0x7FFFFFFF)) last_id cs of
                      Inl e \<Rightarrow> Inl e
                    | Inr cs \<Rightarrow> nak_ids fuel buf words (i + 2) cs))
            else nak_ids fuel buf words (i + 1) (register_nak (sint ident) cs)
      else Inr cs)"

fun srtla_acks :: "byte list \<Rightarrow> nat list \<Rightarrow> conn_t list \<Rightarrow> conn_t list" where
  "srtla_acks buf [] cs = cs"
| "srtla_acks buf (i # is) cs = srtla_acks buf is (register_srtla_ack (sint (be32 buf (4 * i))) False cs)"

fun broadcast_reg2 :: "sender_os \<Rightarrow> conn_t list \<Rightarrow> sender \<Rightarrow> sender" where
  "broadcast_reg2 os [] s = s"
| "broadcast_reg2 os (c # cs) s = broadcast_reg2 os cs (snd (send_reg2 os c s))"

definition handle_ngp :: "sender_os \<Rightarrow> conn_t \<Rightarrow> time_t \<Rightarrow> sender \<Rightarrow> sender" where
  "handle_ngp os c ts s =
     (if active_connections s = 0 \<and> pending_reg2_conn s = None \<and> ts > pending_reg_timeout s
      then case send_reg1 os c s of (ret, s) \<Rightarrow>
             if ret = 0 then s\<lparr>pending_reg2_conn := Some (cptr c), pending_reg_timeout := ts + REG2_TIMEOUT\<rparr>
             else s
      else s)"

definition handle_reg2 :: "sender_os \<Rightarrow> conn_t \<Rightarrow> byte list \<Rightarrow> time_t \<Rightarrow> sender \<Rightarrow> sender" where
  "handle_reg2 os c buf ts s =
     (if pending_reg2_conn s = Some (cptr c) then
        let ident = take SRTLA_ID_LEN (drop 2 buf)
        in if take (SRTLA_ID_LEN div 2) ident \<noteq> take (SRTLA_ID_LEN div 2) (srtla_id s) then s
           else let s = s\<lparr>srtla_id := ident\<rparr>;
                    s = broadcast_reg2 os (links s) s
                in s\<lparr>pending_reg2_conn := None, pending_reg_timeout := ts + REG3_TIMEOUT\<rparr>
      else s)"

definition relay_to_srt :: "byte list \<Rightarrow> sender \<Rightarrow> sender" where
  "relay_to_srt data s = snd_emit (To_Srt (srt_caller s) data) (snd_called s)"

text \<open>What a packet of the receiver does once it is known to be neither a NGP nor a REG2.\<close>

definition dispatch_srtla :: "byte list \<Rightarrow> byte list \<Rightarrow> u16 \<Rightarrow> sender \<Rightarrow> sender_failure + sender" where
  "dispatch_srtla data buf packet_type s =
     (if packet_type = SRT_TYPE_ACK then
        Inr (relay_to_srt data (s\<lparr>links := register_srt_ack (sint (be32 buf 16)) (links s)\<rparr>))
      else if packet_type = SRT_TYPE_NAK then
        (case nak_ids MTU buf (length data div 4) 4 (links s) of
           Inl e \<Rightarrow> Inl e
         | Inr cs \<Rightarrow> Inr (relay_to_srt data (s\<lparr>links := cs\<rparr>)))
      else if packet_type = SRTLA_TYPE_ACK then
        Inr (s\<lparr>links := srtla_acks buf [1..<length data div 4] (links s)\<rparr>)
      else if packet_type = SRTLA_TYPE_KEEPALIVE then Inr s
      else if packet_type = SRTLA_TYPE_REG3 then
        Inr (s\<lparr>has_connected := True, active_connections := active_connections s + 1\<rparr>)
      else Inr (relay_to_srt data s))"

definition handle_srtla_data :: "sender_os \<Rightarrow> conn_t \<Rightarrow> sender \<Rightarrow> sender_failure + sender" where
  "handle_srtla_data os c s =
     (let stack = so_stack os (snd_tick s) in
      case so_recvfrom os (snd_tick s) (c_fd c) of
        None \<Rightarrow> Inr (snd_called s)
      | Some (data, _) \<Rightarrow>
          let data = take MTU data;
              n = int (length data);
              buf = data @ drop (length data) stack;
              s = snd_called s
          in if n \<le> 0 then Inr s
             else
               let ts = (case get_seconds (so_clock os (snd_tick s)) of
                           None \<Rightarrow> so_stale_time os (snd_tick s) | Some t \<Rightarrow> t);
                   s = snd_called s;
                   packet_type = get_srt_type buf n
               in if packet_type = SRTLA_TYPE_REG_NGP then Inr (handle_ngp os c ts s)
                  else if packet_type = SRTLA_TYPE_REG2 then Inr (handle_reg2 os c buf ts s)
                  else dispatch_srtla data buf packet_type
                         (upd_link (cptr c) (\<lambda>c. c\<lparr>c_last_rcvd := ts\<rparr>) s))"

section \<open>Connections and sockets\<close>

text \<open>\<open>inet_addr\<close> returns the four bytes of the address, all ones when the text is none.\<close>

definition parse_ip :: "sender_os \<Rightarrow> string \<Rightarrow> sockaddr_storage option" where
  "parse_ip os ip_str =
     (let ip = so_inet_addr os ip_str
      in if ip = replicate 4 0xFF then None
         else Some (zero_addr\<lparr>ss_family := AF_INET, sin_addr := ip\<rparr>))"

definition conn_find_by_src :: "sockaddr_storage \<Rightarrow> conn_t list \<Rightarrow> conn_t option" where
  "conn_find_by_src src cs = find (\<lambda>c. c_src c = src) cs"

definition new_link :: "nat \<Rightarrow> sockaddr_storage \<Rightarrow> conn_t" where
  "new_link p src =
     \<lparr>cptr = p, c_fd = -1, c_last_rcvd = 0, c_last_sent = 0, c_src = src, c_removed = False,
      in_flight_pkts = 0, c_window = WINDOW_DEF * WINDOW_MULT, pkt_idx = 0, pkt_log = replicate PKT_LOG_SZ 0\<rparr>"

text \<open>A line up to its newline.\<close>
definition line_text :: "string \<Rightarrow> string" where
  "line_text line = takeWhile (\<lambda>c. c \<noteq> CHR 0x00 \<and> c \<noteq> CHR 0x0A) line"

fun add_lines :: "sender_os \<Rightarrow> string list \<Rightarrow> int \<Rightarrow> sender \<Rightarrow> int \<times> sender" where
  "add_lines os [] count s = (count, s)"
| "add_lines os (line # ls) count s =
     (case parse_ip os (line_text line) of
        None \<Rightarrow> add_lines os ls count s
      | Some src \<Rightarrow>
          (case conn_find_by_src src (links s) of
             None \<Rightarrow> add_lines os ls (count + 1)
                       (s\<lparr>links := new_link (snd_fresh s) src # links s, snd_fresh := Suc (snd_fresh s)\<rparr>)
           | Some c \<Rightarrow> add_lines os ls count (upd_link (cptr c) (\<lambda>c. c\<lparr>c_removed := False\<rparr>) s)))"

definition setup_conns :: "sender_os \<Rightarrow> sender \<Rightarrow> sender_failure + int \<times> sender" where
  "setup_conns os s =
     (case so_lines os (snd_tick s) of
        None \<Rightarrow> Inl Exit_Failure
      | Some ls \<Rightarrow> Inr (add_lines os ls 0 (snd_called s)))"

fun drop_removed :: "conn_t list \<Rightarrow> sender \<Rightarrow> sender" where
  "drop_removed [] s = s"
| "drop_removed (c # cs) s =
     (if c_removed c then
        let s = (if pending_reg2_conn s = Some (cptr c) then s\<lparr>pending_reg2_conn := None\<rparr> else s);
            s = snd (remove_active_fd (c_fd c) s);
            s = snd_close (c_fd c) s
        in drop_removed cs (s\<lparr>links := filter (\<lambda>d. cptr d \<noteq> cptr c) (links s)\<rparr>)
      else drop_removed cs s)"

definition update_conns :: "sender_os \<Rightarrow> sender \<Rightarrow> sender_failure + sender" where
  "update_conns os s =
     (case setup_conns os (s\<lparr>links := map (\<lambda>c. c\<lparr>c_removed := True\<rparr>) (links s)\<rparr>) of
        Inl e \<Rightarrow> Inl e
      | Inr (_, s) \<Rightarrow> Inr (drop_removed (links s) s))"

definition open_socket :: "sender_os \<Rightarrow> nat \<Rightarrow> sender \<Rightarrow> int \<times> sender" where
  "open_socket os p s =
     (let s = (case get_link p s of
                 Some c \<Rightarrow>
                   if c_fd c \<ge> 0
                   then upd_link p (\<lambda>c. c\<lparr>c_fd := -1\<rparr>)
                          (snd_close (c_fd c) (snd (remove_active_fd (c_fd c) s)))
                   else s
               | None \<Rightarrow> s);
          fd = so_socket os (snd_tick s); s = snd_called s
      in if fd < 0 then (-1, s)
         else
           let s = snd_emit (Snd_Opened fd) s;
               ret = so_setsockopt os (snd_tick s) fd; s = snd_called s
           in if ret \<noteq> 0 then (-1, snd_close fd s)
              else
                let ret = so_bind os (snd_tick s) fd; s = snd_called s
                in if ret \<noteq> 0 then (-1, snd_close fd s)
                   else (0, upd_link p (\<lambda>c. c\<lparr>c_fd := fd\<rparr>) (snd (add_active_fd fd s))))"

fun open_conns :: "sender_os \<Rightarrow> nat list \<Rightarrow> int \<Rightarrow> sender \<Rightarrow> int \<times> sender" where
  "open_conns os [] opened s = (opened, s)"
| "open_conns os (p # ps) opened s =
     (let (ret, s) = open_socket os p s
      in open_conns os ps (if ret = 0 then opened + 1 else opened) s)"

section \<open>Housekeeping\<close>

definition set_srtla_addr :: "sockaddr_storage \<Rightarrow> sender \<Rightarrow> sender" where
  "set_srtla_addr addr s = s\<lparr>srtla_addr := addr\<rparr>"

definition reset_link :: "conn_t \<Rightarrow> conn_t" where
  "reset_link c =
     c\<lparr>c_last_rcvd := 0, c_last_sent := 0, c_window := WINDOW_MIN * WINDOW_MULT, in_flight_pkts := 0,
       pkt_log := replicate PKT_LOG_SZ (-1)\<rparr>"

definition housekeep_link :: "sender_os \<Rightarrow> time_t \<Rightarrow> nat \<Rightarrow> sender \<Rightarrow> sender" where
  "housekeep_link os time p s =
     (case get_link p s of
        None \<Rightarrow> s
      | Some c \<Rightarrow>
          if c_fd c < 0 then snd (open_socket os p s)
          else if link_timed_out c time then
            let s = (if c_last_rcvd c > 0 then upd_link p reset_link s else s)
            in if pending_reg2_conn s = None then snd (send_reg2 os c s)
               else if pending_reg2_conn s = Some p then snd (send_reg1 os c s)
               else s
          else
            let s = s\<lparr>active_connections := active_connections s + 1\<rparr>
            in if c_last_sent c + IDLE_TIME < time then snd_keepalive os c s else s)"

fun housekeep_links :: "sender_os \<Rightarrow> time_t \<Rightarrow> nat list \<Rightarrow> sender \<Rightarrow> sender" where
  "housekeep_links os time [] s = s"
| "housekeep_links os time (p # ps) s = housekeep_links os time ps (housekeep_link os time p s)"

text \<open>The end of the housekeeping: the timeout when every connection has failed.\<close>

definition check_all_failed :: "u64 \<Rightarrow> sender \<Rightarrow> sender_failure + sender" where
  "check_all_failed ms s =
     (if active_connections s = 0 then
        let s = (if all_failed_at s = 0 then s\<lparr>all_failed_at := ms\<rparr> else s)
        in if ms > all_failed_at s + GLOBAL_TIMEOUT * 1000 then
             if has_connected s then Inl Exit_Failure
             else case tl (addrs s) of
                    [] \<Rightarrow> Inl Exit_Failure
                  | a # as \<Rightarrow> Inr ((set_srtla_addr a (s\<lparr>addrs := a # as\<rparr>))\<lparr>all_failed_at := 0\<rparr>)
           else Inr s
      else Inr (s\<lparr>all_failed_at := 0\<rparr>))"

definition connection_housekeeping :: "sender_os \<Rightarrow> sender \<Rightarrow> sender_failure + sender" where
  "connection_housekeeping os s =
     (case get_ms (so_clock os (snd_tick s)) of
        None \<Rightarrow> Inr (snd_called s)
      | Some ms \<Rightarrow>
          let s = snd_called s
          in if last_ran s + HOUSEKEEPING_INT > ms then Inr s
             else
               let time = uint (ms div 1000);
                   s = s\<lparr>active_connections := 0\<rparr>;
                   s = (if pending_reg2_conn s \<noteq> None \<and> time > pending_reg_timeout s
                        then s\<lparr>pending_reg2_conn := None\<rparr> else s);
                   s = housekeep_links os time (map cptr (links s)) s
               in case check_all_failed ms s of
                    Inl e \<Rightarrow> Inl e
                  | Inr s \<Rightarrow> Inr (s\<lparr>last_ran := ms\<rparr>))"

section \<open>The program\<close>

text \<open>The descriptors that \<open>select\<close> reports, and the handling of the connections among them.\<close>

fun handle_links :: "sender_os \<Rightarrow> int list \<Rightarrow> nat list \<Rightarrow> sender \<Rightarrow> sender_failure + sender" where
  "handle_links os ready [] s = Inr s"
| "handle_links os ready (p # ps) s =
     (case get_link p s of
        None \<Rightarrow> handle_links os ready ps s
      | Some c \<Rightarrow>
          if c_fd c \<ge> 0 \<and> c_fd c \<in> set ready
          then (case handle_srtla_data os c s of Inl e \<Rightarrow> Inl e | Inr s \<Rightarrow> handle_links os ready ps s)
          else handle_links os ready ps s)"

definition serve_ready :: "sender_os \<Rightarrow> sender \<Rightarrow> sender_failure + sender" where
  "serve_ready os s =
     (let ready = filter (so_ready os (snd_tick s)) (active_fds s); s = snd_called s
      in if ready = [] then Inr s
         else let s = (if listenfd s \<in> set ready then snd_handle_srt_data os (listenfd s) s else s)
              in handle_links os ready (map cptr (links s)) s)"

definition sender_iteration :: "sender_os \<Rightarrow> sender \<Rightarrow> sender_failure + sender" where
  "sender_iteration os s =
     (case (if do_update_conns s
            then (case update_conns os s of Inl e \<Rightarrow> Inl e | Inr s \<Rightarrow> Inr (s\<lparr>do_update_conns := False\<rparr>))
            else Inr s) of
        Inl e \<Rightarrow> Inl e
      | Inr s \<Rightarrow>
          (case connection_housekeeping os s of Inl e \<Rightarrow> Inl e | Inr s \<Rightarrow> serve_ready os s))"

definition schedule_update_conns :: "sender \<Rightarrow> sender" where
  "schedule_update_conns s = s\<lparr>do_update_conns := True\<rparr>"

definition idle_sender :: sender where
  "idle_sender =
     \<lparr>links = [], do_update_conns = False, addrs = [], srtla_addr = zero_addr, srt_caller = zero_addr,
      listenfd = 0, active_connections = 0, has_connected = False, pending_reg2_conn = None,
      pending_reg_timeout = 0, srtla_id = replicate SRTLA_ID_LEN 0, active_fds = [], max_act_fd = -1,
      all_failed_at = 0, last_ran = 0, snd_fresh = 0, snd_tick = 0, snd_out = []\<rparr>"

definition snd_random_bytes :: "sender_os \<Rightarrow> nat \<Rightarrow> sender \<Rightarrow> byte list option \<times> sender" where
  "snd_random_bytes os len s =
     (case so_random os (snd_tick s) of
        None \<Rightarrow> (None, snd_called s)
      | Some bytes \<Rightarrow> (if length bytes < len then None else Some (take len bytes), snd_called s))"

text \<open>\<open>main\<close> up to its loop.\<close>

definition open_listener :: "sender_os \<Rightarrow> sender \<Rightarrow> sender_failure + sender" where
  "open_listener os s =
     (let fd = so_socket os (snd_tick s); s = snd_called s
      in if fd < 0 then Inl Exit_Failure
         else let ret = so_bind os (snd_tick s) fd; s = snd_emit (Snd_Opened fd) (snd_called s)
              in if ret < 0 then Inl Exit_Failure
                 else Inr (snd (add_active_fd fd (s\<lparr>listenfd := fd\<rparr>))))"

definition sender_start :: "sender_os \<Rightarrow> sender_failure + sender" where
  "sender_start os =
     (case setup_conns os idle_sender of
        Inl e \<Rightarrow> Inl e
      | Inr (conn_count, s) \<Rightarrow>
          if conn_count \<le> 0 then Inl Exit_Failure
          else (case snd_random_bytes os (SRTLA_ID_LEN div 2) s of
              (None, s) \<Rightarrow> Inl Uncaught
            | (Some random_bytes, s) \<Rightarrow>
                (case open_listener os (s\<lparr>srtla_id := random_bytes @ drop (SRTLA_ID_LEN div 2) (srtla_id s)\<rparr>) of
                   Inl e \<Rightarrow> Inl e
                 | Inr s \<Rightarrow>
                     (case open_conns os (map cptr (links s)) 0 s of (connected, s) \<Rightarrow>
                        if connected < 1 then Inl Exit_Failure
                        else (case so_getaddrinfo os (snd_tick s) of
                                None \<Rightarrow> Inl Exit_Failure
                              | Some as \<Rightarrow>
                                  Inr (set_srtla_addr (hd as) ((snd_called s)\<lparr>addrs := as\<rparr>)))))))"

inductive sender_run :: "sender_os \<Rightarrow> sender \<Rightarrow> sender \<Rightarrow> bool" for os s0 where
  start: "sender_run os s0 s0"
| hup: "sender_run os s0 s \<Longrightarrow> sender_run os s0 (schedule_update_conns s)"
| step: "sender_run os s0 s \<Longrightarrow> sender_iteration os s = Inr s' \<Longrightarrow> sender_run os s0 s'"

end
