(* ===== verification/Sender_Invariant.thy ===== *)
theory Sender_Invariant
  imports Sender
begin

text \<open>
  The invariant of the sender: identities and source addresses of the links are unique, logs and
  indices have their fixed ranges, no window falls below the minimum, and the pointer to the connection
  that waits for a REG2 is never left dangling.
\<close>

section \<open>Definitions\<close>

definition wf_link :: "conn_t \<Rightarrow> bool" where
  "wf_link c \<longleftrightarrow> length (pkt_log c) = PKT_LOG_SZ \<and> 0 \<le> pkt_idx c \<and> pkt_idx c < int PKT_LOG_SZ \<and>
     0 \<le> in_flight_pkts c \<and> WINDOW_MIN * WINDOW_MULT \<le> c_window c"

definition wf_sender :: "sender \<Rightarrow> bool" where
  "wf_sender s \<longleftrightarrow> list_all wf_link (links s) \<and> distinct (map cptr (links s)) \<and>
     (\<forall>c\<in>set (links s). cptr c < snd_fresh s) \<and> distinct (map c_src (links s)) \<and>
     (\<forall>p. pending_reg2_conn s = Some p \<longrightarrow> p \<in> cptr ` set (links s)) \<and> length (srtla_id s) = SRTLA_ID_LEN"

text \<open>The contract of an update of one link: identity and source address kept, invariant kept.\<close>

locale link_update =
  fixes f :: "conn_t \<Rightarrow> conn_t"
  assumes keeps_cptr: "cptr (f c) = cptr c"
    and keeps_src: "c_src (f c) = c_src c"
    and keeps_link: "wf_link c \<Longrightarrow> wf_link (f c)"

text \<open>What such updates make of the list of links.\<close>

definition kin :: "conn_t \<Rightarrow> conn_t \<Rightarrow> bool" where
  "kin c d \<longleftrightarrow> cptr d = cptr c \<and> c_src d = c_src c \<and> (wf_link c \<longrightarrow> wf_link d)"

definition evolved :: "conn_t list \<Rightarrow> conn_t list \<Rightarrow> bool" where
  "evolved cs ds \<longleftrightarrow> list_all2 kin cs ds"

lemma evolved_refl [simp]: "evolved cs cs"
  unfolding evolved_def by (rule list_all2_refl) (simp add: kin_def)

lemma evolved_trans [trans]: "evolved cs ds \<Longrightarrow> evolved ds es \<Longrightarrow> evolved cs es"
  unfolding evolved_def by (erule list_all2_trans [rotated, of kin cs ds kin es kin]) (auto simp: kin_def)

lemma evolved_Cons: "kin c d \<Longrightarrow> evolved cs ds \<Longrightarrow> evolved (c # cs) (d # ds)"
  by (simp add: evolved_def)

lemma kin_refl [simp]: "kin c c"
  by (simp add: kin_def)

lemma evolved_keys:
  assumes "evolved cs ds"
  shows "map cptr ds = map cptr cs" "map c_src ds = map c_src cs" "list_all wf_link cs \<Longrightarrow> list_all wf_link ds"
  using assms unfolding evolved_def by (induction rule: list_all2_induct) (auto simp: kin_def)

lemma evolved_wf:
  assumes "evolved (links s) (links s')" and "wf_sender s" and "snd_fresh s' = snd_fresh s"
    and "pending_reg2_conn s' = pending_reg2_conn s \<or> pending_reg2_conn s' = None"
    and "srtla_id s' = srtla_id s"
  shows "wf_sender s'"
proof -
  note k = evolved_keys [OF assms(1)]
  have "cptr ` set (links s') = cptr ` set (links s)" using k(1) by (metis list.set_map)
  moreover have "(\<forall>c\<in>set (links s'). cptr c < n) = (\<forall>c\<in>set (links s). cptr c < n)" for n
    using calculation by (metis (mono_tags, lifting) image_iff)
  ultimately show ?thesis using assms k unfolding wf_sender_def by auto
qed

context link_update
begin

lemma kin_update: "kin c (f c)"
  by (simp add: kin_def keeps_cptr keeps_src keeps_link)

lemma evolved_map: "evolved cs (map f cs)"
  by (induction cs) (simp_all add: evolved_Cons kin_update)

lemma evolved_upd: "evolved (links s) (links (upd_link p f s))"
proof -
  have "evolved cs (map (\<lambda>c. if cptr c = p then f c else c) cs)" for cs
    by (induction cs) (simp_all add: evolved_Cons kin_update)
  then show ?thesis by (simp add: upd_link_def)
qed

lemma wf_upd: "wf_sender s \<Longrightarrow> wf_sender (upd_link p f s)"
  by (rule evolved_wf [OF evolved_upd]) (simp_all add: upd_link_def)

end

section \<open>The updates of the sender\<close>

interpretation reg_pkt: link_update "reg_pkt packet" for packet
  by unfold_locales (auto simp: reg_pkt_def wf_link_def PKT_LOG_SZ_def)

interpretation nak_link: link_update "nak_link i" for i
  by unfold_locales (auto simp: nak_link_def wf_link_def)

interpretation ack_link: link_update "ack_link i" for i
  by unfold_locales (auto simp: ack_link_def wf_link_def Let_def WINDOW_INCR_def)

interpretation grow_link: link_update grow_link
  by unfold_locales (auto simp: grow_link_def wf_link_def const_defs)

lemma clear_acked_length:
  "length (fst (clear_acked fuel log stop i ack count)) = length log \<and> count \<le> snd (clear_acked fuel log stop i ack count)"
  by (induction fuel log stop i ack count rule: clear_acked.induct) auto

interpretation srt_ack: link_update "conn_register_srt_ack ack" for ack
proof
  fix c :: conn_t
  obtain log n where r: "clear_acked PKT_LOG_SZ (pkt_log c) (pkt_idx c) (get_pkt_idx (pkt_idx c) (-1)) ack 0 = (log, n)"
    by fastforce
  then have "length log = length (pkt_log c)" "0 \<le> n"
    using clear_acked_length [of PKT_LOG_SZ "pkt_log c" "pkt_idx c" "get_pkt_idx (pkt_idx c) (-1)" ack 0] by simp_all
  then show "wf_link (conn_register_srt_ack ack c)" if "wf_link c"
    using that by (simp add: conn_register_srt_ack_def r wf_link_def)
  show "cptr (conn_register_srt_ack ack c) = cptr c" "c_src (conn_register_srt_ack ack c) = c_src c"
    by (simp_all add: conn_register_srt_ack_def r)
qed

interpretation reset_link: link_update reset_link
  by unfold_locales (auto simp: reset_link_def wf_link_def)

interpretation heard: link_update "\<lambda>c. c\<lparr>c_last_rcvd := t\<rparr>" for t
  by unfold_locales (auto simp: wf_link_def)

interpretation used: link_update "\<lambda>c. c\<lparr>c_last_sent := t\<rparr>" for t
  by unfold_locales (auto simp: wf_link_def)

interpretation with_fd: link_update "\<lambda>c. c\<lparr>c_fd := fd\<rparr>" for fd
  by unfold_locales (auto simp: wf_link_def)

interpretation marked: link_update "\<lambda>c. c\<lparr>c_removed := r\<rparr>" for r
  by unfold_locales (auto simp: wf_link_def)

lemma evolved_nak: "evolved cs (register_nak packet cs)"
  by (induction cs) (auto intro: evolved_Cons nak_link.kin_update split: option.split)

lemma evolved_nak_range: "nak_range lost last_id cs = Inr ds \<Longrightarrow> evolved cs ds"
proof (induction lost last_id cs rule: nak_range.induct)
  case (1 lost last_id cs)
  show ?case
  proof (cases "word_of_int lost \<le> last_id \<and> lost < 2 ^ 31 - 1")
    case True
    then have "nak_range (lost + 1) last_id (register_nak lost cs) = Inr ds"
      using "1.prems" by (simp add: nak_range.simps [of lost])
    with 1 True have "evolved (register_nak lost cs) ds" by simp
    with evolved_nak show ?thesis by (rule evolved_trans)
  next
    case False
    with "1.prems" have "ds = cs" by (auto simp: nak_range.simps [of lost] split: if_splits)
    then show ?thesis by simp
  qed
qed

lemma evolved_nak_ids: "nak_ids fuel buf words i cs = Inr ds \<Longrightarrow> evolved cs ds"
proof (induction fuel buf words i cs rule: nak_ids.induct)
  case (2 fuel buf words i cs)
  consider (none) "ds = cs"
    | (one) ident where "i < words" "read_id buf i = Some ident" "ident AND push_bit 31 1 = 0"
        "nak_ids fuel buf words (i + 1) (register_nak (sint ident) cs) = Inr ds"
    | (range) ident last_id cs' where "i < words" "read_id buf i = Some ident" "ident AND push_bit 31 1 \<noteq> 0"
        "read_id buf (i + 1) = Some last_id" "nak_range (uint (ident AND 0x7FFFFFFF)) last_id cs = Inr cs'"
        "nak_ids fuel buf words (i + 2) cs' = Inr ds"
    using "2.prems" by (auto split: if_splits option.splits sum.splits)
  then show ?case
  proof cases
    case one
    with "2.IH"(2) have "evolved (register_nak (sint ident) cs) ds" by simp
    with evolved_nak show ?thesis by (rule evolved_trans)
  next
    case range
    have "evolved cs cs'" using range(5) by (rule evolved_nak_range)
    also have "evolved cs' ds" using "2.IH"(1) [OF range(1-5)] range(6) by simp
    finally show ?thesis .
  qed simp
qed simp

lemma evolved_srtla_ack: "evolved cs (register_srtla_ack ack found cs)"
proof (induction cs arbitrary: found)
  case (Cons c cs)
  have "kin c (grow_link (ack_link i c))" for i
    using grow_link.kin_update [of "ack_link i c"] ack_link.kin_update [of c i] by (auto simp: kin_def)
  with Cons show ?case by (auto intro: evolved_Cons grow_link.kin_update split: option.split)
qed simp

lemma evolved_srtla_acks: "evolved cs (srtla_acks buf is cs)"
  by (induction buf "is" cs rule: srtla_acks.induct) (auto intro: evolved_trans evolved_srtla_ack)

section \<open>Every operation keeps the invariant\<close>

lemma wf_frame [simp]:
  "wf_sender (snd_emit e s) = wf_sender s" "wf_sender (snd_called s) = wf_sender s"
  "wf_sender (snd_close fd s) = wf_sender s"
  "wf_sender (snd (add_active_fd fd s)) = wf_sender s" "wf_sender (snd (remove_active_fd fd s)) = wf_sender s"
  "wf_sender (set_srtla_addr a s) = wf_sender s"
  by (simp_all add: wf_sender_def snd_emit_def snd_called_def snd_close_def add_active_fd_def
      remove_active_fd_def set_srtla_addr_def)

lemma wf_fields [simp]:
  "wf_sender (s\<lparr>srt_caller := a\<rparr>) = wf_sender s" "wf_sender (s\<lparr>active_connections := n\<rparr>) = wf_sender s"
  "wf_sender (s\<lparr>has_connected := b\<rparr>) = wf_sender s" "wf_sender (s\<lparr>pending_reg_timeout := t\<rparr>) = wf_sender s"
  "wf_sender (s\<lparr>all_failed_at := ms\<rparr>) = wf_sender s" "wf_sender (s\<lparr>last_ran := ms\<rparr>) = wf_sender s"
  "wf_sender (s\<lparr>addrs := as\<rparr>) = wf_sender s" "wf_sender (s\<lparr>listenfd := fd\<rparr>) = wf_sender s"
  "wf_sender (s\<lparr>do_update_conns := b\<rparr>) = wf_sender s"
  by (simp_all add: wf_sender_def)

lemma wf_no_pending [simp]: "wf_sender s \<Longrightarrow> wf_sender (s\<lparr>pending_reg2_conn := None\<rparr>)"
  by (simp add: wf_sender_def)

lemma wf_pending: "wf_sender s \<Longrightarrow> p \<in> cptr ` set (links s) \<Longrightarrow> wf_sender (s\<lparr>pending_reg2_conn := Some p\<rparr>)"
  by (simp add: wf_sender_def)

lemma wf_links: "wf_sender s \<Longrightarrow> evolved (links s) cs \<Longrightarrow> wf_sender (s\<lparr>links := cs\<rparr>)"
  by (rule evolved_wf) simp_all

lemma wf_sends [simp]:
  "wf_sender (snd (send_srtla os fd n b s)) = wf_sender s" "wf_sender (snd (send_reg1 os c s)) = wf_sender s"
  "wf_sender (snd (send_reg2 os c s)) = wf_sender s" "wf_sender (snd_keepalive os c s) = wf_sender s"
  by (simp_all add: send_srtla_def send_reg1_def send_reg2_def snd_keepalive_def Let_def)

lemma links_frame [simp]:
  "links (snd_emit e s) = links s" "links (snd_called s) = links s" "links (snd (send_srtla os fd n b s)) = links s"
  "links (snd (send_reg1 os c s)) = links s" "links (snd (send_reg2 os c s)) = links s"
  "links (snd (add_active_fd fd s)) = links s" "links (snd (remove_active_fd fd s)) = links s"
  "links (snd_close fd s) = links s"
  by (simp_all add: snd_emit_def snd_called_def send_srtla_def send_reg1_def send_reg2_def Let_def
      add_active_fd_def remove_active_fd_def snd_close_def)

lemma get_link_Some: "get_link p s = Some c \<Longrightarrow> c \<in> set (links s) \<and> cptr c = p"
  by (auto simp: get_link_def find_Some_iff)

lemma wf_select: "wf_sender s \<Longrightarrow> wf_sender (snd (select_conn os s))"
  by (auto simp: select_conn_def intro: used.wf_upd split: option.split)

lemma wf_handle_srt_data:
  assumes wf: "wf_sender s"
  shows "wf_sender (snd_handle_srt_data os fd s)"
proof -
  obtain n buf s1 where r: "recv_caller os fd s = (n, buf, s1)" by (cases "recv_caller os fd s") auto
  with wf have wf1: "wf_sender s1" by (auto simp: recv_caller_def split: option.splits)
  obtain co s2 where s2: "select_conn os s1 = (co, s2)" by fastforce
  with wf_select [OF wf1, of os] have wf2: "wf_sender s2" by simp
  show ?thesis
  proof (cases co)
    case None
    with wf2 show ?thesis by (simp add: snd_handle_srt_data_def r s2)
  next
    case (Some c)
    obtain ret s3 where s3: "send_srtla os (c_fd c) n buf s2 = (ret, s3)" by fastforce
    then have "wf_sender s3" using wf2 wf_sends(1) [of os "c_fd c" n buf s2] by simp
    then show ?thesis
      using Some by (auto simp: snd_handle_srt_data_def r s2 s3 Let_def intro: reg_pkt.wf_upd heard.wf_upd)
  qed
qed

lemma broadcast_reg2_frame:
  "wf_sender (broadcast_reg2 os cs s) = wf_sender s" "links (broadcast_reg2 os cs s) = links s"
  by (induction cs arbitrary: s) simp_all

lemma wf_ngp: "wf_sender s \<Longrightarrow> c \<in> set (links s) \<Longrightarrow> wf_sender (handle_ngp os c ts s)"
proof -
  assume wf: "wf_sender s" and c: "c \<in> set (links s)"
  obtain ret s1 where s1: "send_reg1 os c s = (ret, s1)" by fastforce
  then have "wf_sender s1" "links s1 = links s"
    using wf wf_sends(2) [of os c s] links_frame(4) [of os c s] by simp_all
  with wf c show ?thesis by (auto simp: handle_ngp_def s1 intro: wf_pending)
qed

lemma wf_reg2:
  assumes "wf_sender s" and "SRTLA_ID_LEN + 2 \<le> length buf"
  shows "wf_sender (handle_reg2 os c buf ts s)"
proof -
  have "wf_sender (s\<lparr>srtla_id := take SRTLA_ID_LEN (drop 2 buf)\<rparr>)"
    using assms by (simp add: wf_sender_def)
  with assms show ?thesis
    by (simp add: handle_reg2_def Let_def broadcast_reg2_frame)
qed

lemma wf_dispatch:
  assumes "wf_sender s" and "dispatch_srtla data buf typ s = Inr s'"
  shows "wf_sender s'"
proof -
  have "wf_sender (s\<lparr>links := register_srt_ack a (links s)\<rparr>)" for a
    using assms(1) by (auto simp: register_srt_ack_def intro: wf_links srt_ack.evolved_map)
  moreover have "wf_sender (s\<lparr>links := srtla_acks buf is (links s)\<rparr>)" for "is"
    using assms(1) by (intro wf_links evolved_srtla_acks)
  moreover have "wf_sender (s\<lparr>links := cs\<rparr>)" if "nak_ids n buf w i (links s) = Inr cs" for n w i cs
    using assms(1) evolved_nak_ids [OF that] by (rule wf_links)
  ultimately show ?thesis
    using assms by (auto simp: dispatch_srtla_def relay_to_srt_def split: if_splits sum.splits)
qed

definition full_stack :: "sender_os \<Rightarrow> bool" where
  "full_stack os \<longleftrightarrow> (\<forall>t. length (so_stack os t) = MTU)"

lemma wf_handle_srtla_data:
  assumes wf: "wf_sender s" and st: "full_stack os" and c: "c \<in> set (links s)"
    and res: "handle_srtla_data os c s = Inr s'"
  shows "wf_sender s'"
proof (cases "so_recvfrom os (snd_tick s) (c_fd c)")
  case None
  with res wf show ?thesis by (auto simp: handle_srtla_data_def)
next
  case (Some r)
  obtain d a where r: "r = (d, a)" by fastforce
  define data where "data = take MTU d"
  define buf where "buf = data @ drop (length data) (so_stack os (snd_tick s))"
  define ts where "ts = (case get_seconds (so_clock os (Suc (snd_tick s))) of
      None \<Rightarrow> so_stale_time os (Suc (snd_tick s)) | Some t \<Rightarrow> t)"
  define s1 where "s1 = snd_called (snd_called s)"
  have len: "length buf = MTU" using st by (simp add: buf_def data_def full_stack_def)
  have wf1: "wf_sender s1" "c \<in> set (links s1)" using wf c by (simp_all add: s1_def)
  have t: "snd_tick (snd_called s) = Suc (snd_tick s)" by (simp add: snd_called_def)
  have "s' = snd_called s \<or> s' = handle_ngp os c ts s1 \<or> s' = handle_reg2 os c buf ts s1 \<or>
      dispatch_srtla data buf (get_srt_type buf (int (length data)))
        (upd_link (cptr c) (\<lambda>c. c\<lparr>c_last_rcvd := ts\<rparr>) s1) = Inr s'"
    using res
    unfolding handle_srtla_data_def Some r Let_def option.case prod.case data_def [symmetric]
      buf_def [symmetric] t ts_def [symmetric] s1_def [symmetric]
    by (simp split: if_splits)
  moreover have "wf_sender (handle_reg2 os c buf ts s1)"
    using wf1(1) by (rule wf_reg2) (simp add: len MTU_def SRTLA_ID_LEN_def)
  ultimately show ?thesis
    using wf wf_ngp [OF wf1] wf_dispatch [OF heard.wf_upd [OF wf1(1)]] by auto
qed

lemma wf_new_link: "wf_link (new_link p src)"
  by (simp add: wf_link_def new_link_def const_defs)

lemma conn_find_None: "conn_find_by_src src cs = None \<longleftrightarrow> src \<notin> c_src ` set cs"
  by (auto simp: conn_find_by_src_def find_None_iff)

lemma wf_add_lines: "wf_sender s \<Longrightarrow> wf_sender (snd (add_lines os ls count s))"
proof (induction os ls count s rule: add_lines.induct)
  case (2 os line ls count s)
  show ?case
  proof (cases "parse_ip os (line_text line)")
    case None
    with 2 show ?thesis by simp
  next
    case (Some src)
    show ?thesis
    proof (cases "conn_find_by_src src (links s)")
      case None
      have "wf_sender (s\<lparr>links := new_link (snd_fresh s) src # links s, snd_fresh := Suc (snd_fresh s)\<rparr>)"
        using "2.prems" None conn_find_None [of src "links s"]
        by (auto simp: wf_sender_def wf_new_link) (auto simp: new_link_def less_Suc_eq)
      with 2 Some None show ?thesis by simp
    next
      case found: (Some c)
      with 2 Some show ?thesis by (simp add: marked.wf_upd)
    qed
  qed
qed simp

lemma wf_setup_conns: "wf_sender s \<Longrightarrow> setup_conns os s = Inr (n, s') \<Longrightarrow> wf_sender s'"
  using wf_add_lines [of "snd_called s" os _ 0] by (auto simp: setup_conns_def split: option.splits) (metis snd_conv)

lemma wf_unlink:
  assumes "wf_sender s" and "pending_reg2_conn s \<noteq> Some p"
  shows "wf_sender (s\<lparr>links := filter (\<lambda>d. cptr d \<noteq> p) (links s)\<rparr>)"
  using assms by (auto simp: wf_sender_def list_all_iff distinct_map_filter)

lemma wf_drop_one:
  fixes c :: conn_t
  assumes "wf_sender s"
  defines "s1 \<equiv> if pending_reg2_conn s = Some (cptr c) then s\<lparr>pending_reg2_conn := None\<rparr> else s"
  defines "s2 \<equiv> snd_close (c_fd c) (snd (remove_active_fd (c_fd c) s1))"
  shows "wf_sender (s2\<lparr>links := filter (\<lambda>d. cptr d \<noteq> cptr c) (links s2)\<rparr>)"
proof -
  have "wf_sender s1" "pending_reg2_conn s1 \<noteq> Some (cptr c)" using assms(1) by (auto simp: s1_def)
  then have "wf_sender s2" "pending_reg2_conn s2 \<noteq> Some (cptr c)"
    by (simp_all add: s2_def) (simp add: snd_close_def snd_emit_def snd_called_def remove_active_fd_def)
  then show ?thesis by (rule wf_unlink)
qed

lemma wf_drop_removed: "wf_sender s \<Longrightarrow> wf_sender (drop_removed cs s)"
proof (induction cs s rule: drop_removed.induct)
  case (2 c cs s)
  define s1 where "s1 = (if pending_reg2_conn s = Some (cptr c) then s\<lparr>pending_reg2_conn := None\<rparr> else s)"
  define s2 where "s2 = snd_close (c_fd c) (snd (remove_active_fd (c_fd c) s1))"
  have "wf_sender (s2\<lparr>links := filter (\<lambda>d. cptr d \<noteq> cptr c) (links s2)\<rparr>)"
    unfolding s2_def s1_def using "2.prems" by (rule wf_drop_one)
  moreover have "links s2 = links s1" by (simp add: s2_def)
  ultimately show ?case using 2 by (simp add: Let_def s1_def [symmetric] s2_def [symmetric])
qed simp

lemma wf_update_conns:
  assumes "wf_sender s" and "update_conns os s = Inr s'"
  shows "wf_sender s'"
proof -
  have "wf_sender (s\<lparr>links := map (\<lambda>c. c\<lparr>c_removed := True\<rparr>) (links s)\<rparr>)"
    using assms(1) by (intro wf_links marked.evolved_map)
  with assms(2) show ?thesis
    by (auto simp: update_conns_def wf_drop_removed dest: wf_setup_conns split: sum.splits)
qed

lemma wf_open_socket:
  assumes "wf_sender s"
  shows "wf_sender (snd (open_socket os p s))"
proof -
  define s1 where "s1 = (case get_link p s of
      Some c \<Rightarrow> if c_fd c \<ge> 0 then upd_link p (\<lambda>c. c\<lparr>c_fd := -1\<rparr>)
                          (snd_close (c_fd c) (snd (remove_active_fd (c_fd c) s))) else s
    | None \<Rightarrow> s)"
  have "wf_sender s1" using assms by (auto simp: s1_def intro: with_fd.wf_upd split: option.split)
  then show ?thesis
    unfolding open_socket_def s1_def [symmetric] Let_def by (auto intro: with_fd.wf_upd)
qed

lemma wf_open_conns: "wf_sender s \<Longrightarrow> wf_sender (snd (open_conns os ps n s))"
  by (induction os ps n s rule: open_conns.induct) (auto simp: Let_def split_def wf_open_socket)

lemma wf_housekeep_link: "wf_sender s \<Longrightarrow> wf_sender (housekeep_link os t p s)"
  by (auto simp: housekeep_link_def Let_def wf_open_socket reset_link.wf_upd split: option.split)

lemma wf_housekeep_links: "wf_sender s \<Longrightarrow> wf_sender (housekeep_links os t ps s)"
  by (induction os t ps s rule: housekeep_links.induct) (simp_all add: wf_housekeep_link)

lemma wf_all_failed: "wf_sender s \<Longrightarrow> check_all_failed ms s = Inr s' \<Longrightarrow> wf_sender s'"
  by (auto simp: check_all_failed_def Let_def split: if_splits list.splits)

lemma wf_housekeeping:
  assumes "wf_sender s" and "connection_housekeeping os s = Inr s'"
  shows "wf_sender s'"
proof (cases "get_ms (so_clock os (snd_tick s))")
  case None
  with assms show ?thesis by (auto simp: connection_housekeeping_def)
next
  case (Some ms)
  define t where "t = uint (ms div 1000)"
  define s1 where "s1 = (snd_called s)\<lparr>active_connections := 0\<rparr>"
  define s2 where "s2 = (if pending_reg2_conn s1 \<noteq> None \<and> t > pending_reg_timeout s1
      then s1\<lparr>pending_reg2_conn := None\<rparr> else s1)"
  have "wf_sender s2" using assms(1) by (simp add: s2_def s1_def)
  then have wf: "wf_sender (housekeep_links os t (map cptr (links s2)) s2)" by (rule wf_housekeep_links)
  have "s' = snd_called s \<or> (\<exists>s3. check_all_failed ms (housekeep_links os t (map cptr (links s2)) s2) = Inr s3 \<and>
      s' = s3\<lparr>last_ran := ms\<rparr>)"
    using assms(2) unfolding connection_housekeeping_def Some option.case Let_def
      t_def [symmetric] s1_def [symmetric] s2_def [symmetric]
    by (auto split: if_splits sum.splits)
  with assms(1) wf_all_failed [OF wf] show ?thesis by auto
qed

lemma wf_handle_links:
  "wf_sender s \<Longrightarrow> full_stack os \<Longrightarrow> handle_links os ready ps s = Inr s' \<Longrightarrow> wf_sender s'"
proof (induction os ready ps s rule: handle_links.induct)
  case (2 os ready p ps s)
  show ?case
  proof (cases "get_link p s")
    case None
    with 2 show ?thesis by simp
  next
    case (Some c)
    show ?thesis
    proof (cases "c_fd c \<ge> 0 \<and> c_fd c \<in> set ready")
      case True
      with "2.prems"(3) Some obtain s1 where s1: "handle_srtla_data os c s = Inr s1" "handle_links os ready ps s1 = Inr s'"
        by (auto split: sum.splits)
      have "wf_sender s1" using wf_handle_srtla_data [OF "2.prems"(1,2) _ s1(1)] get_link_Some [OF Some] by simp
      with 2 Some True s1 show ?thesis by simp
    next
      case False
      with 2 Some show ?thesis by auto
    qed
  qed
qed simp

lemma wf_serve:
  assumes wf: "wf_sender s" and st: "full_stack os" and res: "serve_ready os s = Inr s'"
  shows "wf_sender s'"
proof -
  define ready where "ready = filter (so_ready os (snd_tick s)) (active_fds s)"
  define s1 where "s1 = (if listenfd (snd_called s) \<in> set ready
      then snd_handle_srt_data os (listenfd (snd_called s)) (snd_called s) else snd_called s)"
  have wf1: "wf_sender s1" using wf by (simp add: s1_def wf_handle_srt_data)
  have "s' = snd_called s \<or> handle_links os ready (map cptr (links s1)) s1 = Inr s'"
    using res unfolding serve_ready_def Let_def ready_def [symmetric] s1_def [symmetric] by (auto split: if_splits)
  then show ?thesis
  proof
    assume "s' = snd_called s"
    with wf show ?thesis by simp
  next
    assume "handle_links os ready (map cptr (links s1)) s1 = Inr s'"
    with wf1 st show ?thesis by (rule wf_handle_links)
  qed
qed

lemma wf_iteration:
  assumes "wf_sender s" and "full_stack os" and "sender_iteration os s = Inr s'"
  shows "wf_sender s'"
proof -
  obtain s1 s2 where s1: "s1 = s \<or> (\<exists>s0. update_conns os s = Inr s0 \<and> s1 = s0\<lparr>do_update_conns := False\<rparr>)"
    "connection_housekeeping os s1 = Inr s2" "serve_ready os s2 = Inr s'"
    using assms(3) by (auto simp: sender_iteration_def split: if_splits sum.splits)
  have "wf_sender s1" using s1(1) assms(1) wf_update_conns by auto
  then have "wf_sender s2" using s1(2) by (rule wf_housekeeping)
  then show ?thesis using assms(2) s1(3) by (rule wf_serve)
qed

lemma wf_idle: "wf_sender idle_sender"
  by (simp add: wf_sender_def idle_sender_def)

lemma wf_open_listener: "wf_sender s \<Longrightarrow> open_listener os s = Inr s' \<Longrightarrow> wf_sender s'"
  by (auto simp: open_listener_def Let_def split: if_splits)

lemma wf_start:
  assumes "sender_start os = Inr s"
  shows "wf_sender s"
proof -
  obtain n s1 rb s2 s3 k s4 as where
    s1: "setup_conns os idle_sender = Inr (n, s1)" and
    s2: "snd_random_bytes os (SRTLA_ID_LEN div 2) s1 = (Some rb, s2)" and
    s3: "open_listener os (s2\<lparr>srtla_id := rb @ drop (SRTLA_ID_LEN div 2) (srtla_id s2)\<rparr>) = Inr s3" and
    s4: "open_conns os (map cptr (links s3)) 0 s3 = (k, s4)" and
    s: "s = set_srtla_addr (hd as) ((snd_called s4)\<lparr>addrs := as\<rparr>)"
    using assms by (auto simp: sender_start_def split: sum.splits prod.splits option.splits if_splits)
  have "wf_sender s1" using wf_idle s1 by (rule wf_setup_conns)
  with s2 have "wf_sender s2" "length rb = SRTLA_ID_LEN div 2"
    by (auto simp: snd_random_bytes_def split: option.splits if_splits)
  then have "wf_sender (s2\<lparr>srtla_id := rb @ drop (SRTLA_ID_LEN div 2) (srtla_id s2)\<rparr>)"
    by (simp add: wf_sender_def SRTLA_ID_LEN_def)
  then have "wf_sender s3" using s3 by (rule wf_open_listener)
  then have "wf_sender s4" using wf_open_conns [of s3 os "map cptr (links s3)" 0] s4 by simp
  then show ?thesis by (simp add: s)
qed

text \<open>C5. Every reachable state of the sender is well-formed, whatever arrives and whatever system calls
  answer: no two links have the same identity or the same source address; the packet logs have 256
  entries and their indices are in range; in-flight counts are not negative, so that no score is
  divided by zero; no window is below the minimum; and the pointer to the connection that waits for
  a REG2 always points to a link that exists, also after links were removed on a hang-up signal.\<close>

theorem sender_well_formed:
  assumes "sender_start os = Inr s0" and "full_stack os" and "sender_run os s0 s"
  shows "wf_sender s"
  using assms(3)
proof induction
  case start
  show ?case using assms(1) by (rule wf_start)
next
  case (hup s)
  then show ?case by (simp add: schedule_update_conns_def)
next
  case (step s s')
  then show ?case using wf_iteration [OF _ assms(2)] by simp
qed

end
