(* ===== verification/Sender_Links.thy ===== *)
theory Sender_Links
  imports Sender_Invariant
begin

text \<open>
  What the sender does with the packets of both sides: the choice of the link for a packet of the SRT
  caller, and the effect of acknowledgements and loss reports on the links.
\<close>

section \<open>The packet log\<close>

text \<open>The entries the loops examine: all but the one that is written next.\<close>

definition slot :: "conn_t \<Rightarrow> nat \<Rightarrow> bool" where
  "slot c i \<longleftrightarrow> i < PKT_LOG_SZ \<and> int i \<noteq> pkt_idx c"

definition logged :: "int \<Rightarrow> conn_t \<Rightarrow> bool" where
  "logged packet c \<longleftrightarrow> (\<exists>i. slot c i \<and> pkt_log c ! i = packet)"

lemma get_pkt_idx_back:
  "get_pkt_idx ((stop - k) mod int PKT_LOG_SZ) (-1) = (stop - (k + 1)) mod int PKT_LOG_SZ"
proof -
  define x where "x = (stop - k) mod int PKT_LOG_SZ"
  have "get_pkt_idx x (-1) = (x - 1) mod int PKT_LOG_SZ"
    by (simp add: get_pkt_idx_def Let_def)
  also have "\<dots> = (stop - (k + 1)) mod int PKT_LOG_SZ"
    unfolding x_def by (simp add: mod_diff_left_eq algebra_simps)
  finally show ?thesis by (simp add: x_def)
qed

lemma position_distinct:
  assumes "0 \<le> stop" "stop < int PKT_LOG_SZ" "0 < k" "k < int PKT_LOG_SZ"
  shows "(stop - k) mod int PKT_LOG_SZ \<noteq> stop"
proof
  assume "(stop - k) mod int PKT_LOG_SZ = stop"
  then have "(stop - k - stop) mod int PKT_LOG_SZ = 0" using assms by (metis diff_self mod_diff_left_eq mod_0)
  then have "int PKT_LOG_SZ dvd k" by (simp add: mod_eq_0_iff_dvd)
  with assms zdvd_imp_le [of "int PKT_LOG_SZ" k] show False by simp
qed

text \<open>The positions a loop visits from the \<open>k\<close>th newest entry on.\<close>

definition positions :: "int \<Rightarrow> nat \<Rightarrow> int list" where
  "positions stop k = map (\<lambda>j. (stop - int j) mod int PKT_LOG_SZ) [k..<PKT_LOG_SZ]"

lemma positions_step:
  "k < PKT_LOG_SZ \<Longrightarrow> positions stop k = (stop - int k) mod int PKT_LOG_SZ # positions stop (Suc k)"
  by (simp add: positions_def upt_rec [of k])

lemma positions_end [simp]: "positions stop PKT_LOG_SZ = []"
  by (simp add: positions_def)

lemma wrap_around: "0 \<le> stop \<Longrightarrow> stop < int PKT_LOG_SZ \<Longrightarrow> (stop - int PKT_LOG_SZ) mod int PKT_LOG_SZ = stop"
  by simp

lemma back_Suc: "get_pkt_idx ((stop - int k) mod int PKT_LOG_SZ) (-1) = (stop - int (Suc k)) mod int PKT_LOG_SZ"
  by (simp add: get_pkt_idx_back add.commute)

lemma find_in_log_eq:
  assumes stop: "0 \<le> stop" "stop < int PKT_LOG_SZ" and "0 < k" "k \<le> PKT_LOG_SZ" "PKT_LOG_SZ \<le> fuel + k"
  shows "find_in_log fuel log stop ((stop - int k) mod int PKT_LOG_SZ) packet =
    find (\<lambda>i. log ! nat i = packet) (positions stop k)"
  using assms(3-5)
proof (induction fuel arbitrary: k)
  case (Suc fuel)
  show ?case
  proof (cases "k = PKT_LOG_SZ")
    case True
    then show ?thesis using wrap_around [OF stop] by simp
  next
    case False
    with Suc.prems have k: "k < PKT_LOG_SZ" by simp
    have "(stop - int k) mod int PKT_LOG_SZ \<noteq> stop" using position_distinct [OF stop, of "int k"] Suc.prems k by simp
    moreover have "find_in_log fuel log stop ((stop - int (Suc k)) mod int PKT_LOG_SZ) packet =
        find (\<lambda>i. log ! nat i = packet) (positions stop (Suc k))"
      using Suc k by (intro Suc.IH) simp_all
    ultimately show ?thesis by (simp add: positions_step [OF k] back_Suc del: of_nat_Suc)
  qed
qed simp

definition clear_step :: "int \<Rightarrow> int \<Rightarrow> int list \<times> int \<Rightarrow> int list \<times> int" where
  "clear_step ack i r = (case r of (log, count) \<Rightarrow>
     if log ! nat i < ack then (log[nat i := -1], count) else (log, count + 1))"

lemma clear_acked_eq:
  assumes stop: "0 \<le> stop" "stop < int PKT_LOG_SZ" and "0 < k" "k \<le> PKT_LOG_SZ" "PKT_LOG_SZ \<le> fuel + k"
  shows "clear_acked fuel log stop ((stop - int k) mod int PKT_LOG_SZ) ack count =
    fold (clear_step ack) (positions stop k) (log, count)"
  using assms(3-5)
proof (induction fuel arbitrary: k log count)
  case (Suc fuel)
  show ?case
  proof (cases "k = PKT_LOG_SZ")
    case True
    then show ?thesis using wrap_around [OF stop] by simp
  next
    case False
    with Suc.prems have k: "k < PKT_LOG_SZ" by simp
    have "(stop - int k) mod int PKT_LOG_SZ \<noteq> stop" using position_distinct [OF stop, of "int k"] Suc.prems k by simp
    moreover have "clear_acked fuel l stop ((stop - int (Suc k)) mod int PKT_LOG_SZ) ack n =
        fold (clear_step ack) (positions stop (Suc k)) (l, n)" for l n
      using Suc k by (intro Suc.IH) simp_all
    ultimately show ?thesis
      by (simp add: positions_step [OF k] back_Suc clear_step_def [of _ _ "(log, count)"] del: of_nat_Suc)
  qed
qed simp

lemma positions_distinct: "distinct (positions stop 1)"
proof -
  have "inj_on (\<lambda>j. (stop - int j) mod int PKT_LOG_SZ) {1..<PKT_LOG_SZ}"
  proof (rule inj_onI)
    fix i j assume ij: "i \<in> {1..<PKT_LOG_SZ}" "j \<in> {1..<PKT_LOG_SZ}"
      and "(stop - int i) mod int PKT_LOG_SZ = (stop - int j) mod int PKT_LOG_SZ"
    then have "int PKT_LOG_SZ dvd (stop - int i) - (stop - int j)" by (simp only: mod_eq_dvd_iff)
    then have "int PKT_LOG_SZ dvd int j - int i" by simp
    with ij show "i = j"
      using zdvd_imp_le [of "int PKT_LOG_SZ" "int j - int i"] zdvd_imp_le [of "int PKT_LOG_SZ" "int i - int j"]
      by (cases "i < j"; cases "j < i") (auto simp: dvd_diff_commute)
  qed
  then show ?thesis by (simp add: positions_def distinct_map)
qed

lemma positions_set:
  assumes "0 \<le> pkt_idx c" "pkt_idx c < int PKT_LOG_SZ"
  shows "set (positions (pkt_idx c) 1) = int ` {i. slot c i}"
proof (rule card_subset_eq)
  show "set (positions (pkt_idx c) 1) \<subseteq> int ` {i. slot c i}"
  proof
    fix x assume "x \<in> set (positions (pkt_idx c) 1)"
    then obtain j where j: "1 \<le> j" "j < PKT_LOG_SZ" "x = (pkt_idx c - int j) mod int PKT_LOG_SZ"
      by (auto simp: positions_def)
    have "x \<noteq> pkt_idx c" using position_distinct [OF assms, of "int j"] j by simp
    moreover have "0 \<le> x" "x < int PKT_LOG_SZ" by (simp_all add: j(3) PKT_LOG_SZ_def)
    ultimately have "slot c (nat x)" "x = int (nat x)" by (auto simp: slot_def)
    then show "x \<in> int ` {i. slot c i}" by blast
  qed
  have "{i. slot c i} = {..<PKT_LOG_SZ} - {nat (pkt_idx c)}" using assms by (auto simp: slot_def)
  moreover have "nat (pkt_idx c) \<in> {..<PKT_LOG_SZ}" using assms by simp
  ultimately have "card {i. slot c i} = PKT_LOG_SZ - 1" by simp
  then show "card (set (positions (pkt_idx c) 1)) = card (int ` {i. slot c i})"
    using distinct_card [OF positions_distinct, of "pkt_idx c"] by (simp add: card_image positions_def)
  show "finite (int ` {i. slot c i})" by (simp add: slot_def)
qed

lemma log_position_eq:
  assumes "wf_link c"
  shows "log_position packet c = find (\<lambda>i. pkt_log c ! nat i = packet) (positions (pkt_idx c) 1)"
proof -
  have idx: "0 \<le> pkt_idx c" "pkt_idx c < int PKT_LOG_SZ" using assms by (simp_all add: wf_link_def)
  have "get_pkt_idx (pkt_idx c) (-1) = (pkt_idx c - int 1) mod int PKT_LOG_SZ"
    using get_pkt_idx_back [of "pkt_idx c" 0] idx by simp
  then show ?thesis using find_in_log_eq [OF idx, of 1 PKT_LOG_SZ] by (simp add: log_position_def PKT_LOG_SZ_def)
qed

lemma log_position_None: "wf_link c \<Longrightarrow> log_position packet c = None \<longleftrightarrow> \<not> logged packet c"
  using positions_set [of c]
  by (auto simp: log_position_eq find_None_iff logged_def wf_link_def)

lemma log_position_Some:
  assumes "wf_link c" "log_position packet c = Some i"
  obtains k where "i = int k" "slot c k" "pkt_log c ! k = packet"
proof -
  have "i \<in> set (positions (pkt_idx c) 1)" "pkt_log c ! nat i = packet"
    using assms by (auto simp: log_position_eq find_Some_iff)
  with assms(1) positions_set [of c] that show thesis by (auto simp: wf_link_def)
qed

section \<open>Loss reports\<close>

lemma log_position_unlogged: "wf_link c \<Longrightarrow> \<not> logged packet c \<Longrightarrow> log_position packet c = None"
  by (simp add: log_position_None)

lemma register_nak_split:
  assumes "list_all wf_link (xs @ c # ys)" "\<forall>d\<in>set xs. \<not> logged packet d" "log_position packet c = Some i"
  shows "register_nak packet (xs @ c # ys) = xs @ nak_link i c # ys"
  using assms by (induction xs) (simp_all add: log_position_unlogged)

lemma register_nak_none:
  "list_all wf_link cs \<Longrightarrow> \<forall>d\<in>set cs. \<not> logged packet d \<Longrightarrow> register_nak packet cs = cs"
  by (induction cs) (simp_all add: log_position_unlogged)

text \<open>C21. A lost packet is charged to one link. If no link has the packet in its log, the report changes
  nothing. Otherwise the first link that has it, among the newest 255 entries of its log, loses
  100 from its window, but never falls below the minimum of 1000, and the entry is cleared, so that
  a second report of the same packet is not charged to it again; every other link is unchanged.\<close>

theorem nak_charges_one_link:
  assumes "list_all wf_link cs"
  shows "if \<forall>c\<in>set cs. \<not> logged packet c then register_nak packet cs = cs
    else \<exists>xs c ys i. cs = xs @ c # ys \<and> (\<forall>d\<in>set xs. \<not> logged packet d) \<and> slot c i \<and> pkt_log c ! i = packet \<and>
      register_nak packet cs = xs @ c\<lparr>pkt_log := (pkt_log c)[i := -1],
        c_window := max (c_window c - 100) 1000\<rparr> # ys"
proof (cases "\<forall>c\<in>set cs. \<not> logged packet c")
  case True
  with assms show ?thesis by (simp add: register_nak_none)
next
  case False
  then obtain xs c ys where cs: "cs = xs @ c # ys" "logged packet c" "\<forall>d\<in>set xs. \<not> logged packet d"
    using split_list_first_prop [of cs "logged packet"] by blast
  have c: "wf_link c" using assms cs by simp
  then obtain i where i: "log_position packet c = Some i" using cs(2) log_position_None [OF c] by fastforce
  then obtain k where k: "i = int k" "slot c k" "pkt_log c ! k = packet" using log_position_Some [OF c] by metis
  have "register_nak packet cs = xs @ nak_link i c # ys"
    using register_nak_split [OF _ cs(3) i] assms cs(1) by simp
  then have r: "register_nak packet cs = xs @ c\<lparr>pkt_log := (pkt_log c)[k := -1],
      c_window := max (c_window c - 100) 1000\<rparr> # ys"
    by (simp add: nak_link_def k(1) const_defs)
  show ?thesis unfolding if_not_P [OF False] using cs(1,3) k(2,3) r by blast
qed

section \<open>SRTLA acknowledgements\<close>

lemma srtla_ack_found: "register_srtla_ack ack True cs = map grow_link cs"
  by (induction cs) simp_all

lemma srtla_ack_none:
  "list_all wf_link cs \<Longrightarrow> \<forall>d\<in>set cs. \<not> logged ack d \<Longrightarrow> register_srtla_ack ack False cs = map grow_link cs"
  by (induction cs) (simp_all add: log_position_unlogged)

lemma srtla_ack_split:
  assumes "list_all wf_link (xs @ c # ys)" "\<forall>d\<in>set xs. \<not> logged ack d" "log_position ack c = Some i"
  shows "register_srtla_ack ack False (xs @ c # ys) = map grow_link (xs @ ack_link i c # ys)"
  using assms by (induction xs) (simp_all add: log_position_unlogged srtla_ack_found)

lemma srtla_ack_logged:
  assumes "list_all wf_link cs" "\<not> (\<forall>c\<in>set cs. \<not> logged ack c)"
  obtains xs c ys i where "cs = xs @ c # ys" "\<forall>d\<in>set xs. \<not> logged ack d" "slot c i" "pkt_log c ! i = ack" "wf_link c"
    "register_srtla_ack ack False cs = map grow_link (xs @ ack_link (int i) c # ys)"
proof -
  obtain xs c ys where cs: "cs = xs @ c # ys" "logged ack c" "\<forall>d\<in>set xs. \<not> logged ack d"
    using assms(2) split_list_first_prop [of cs "logged ack"] by blast
  have c: "wf_link c" using assms(1) cs by simp
  then obtain i where i: "log_position ack c = Some i" using cs(2) log_position_None [OF c] by fastforce
  then obtain k where k: "i = int k" "slot c k" "pkt_log c ! k = ack" using log_position_Some [OF c] by metis
  have "register_srtla_ack ack False cs = map grow_link (xs @ ack_link (int k) c # ys)"
    using srtla_ack_split [OF _ cs(3) i] assms(1) cs(1) k(1) by simp
  with cs(1,3) k(2,3) c show thesis by (intro that [of xs c ys k])
qed

lemma grow_link_spec:
  "grow_link c = (if c_last_rcvd c = 0 then c else c\<lparr>c_window := min (c_window c + 1) 60000\<rparr>)"
  by (simp add: grow_link_def const_defs)

lemma ack_link_spec:
  assumes "wf_link c"
  shows "ack_link (int i) c = c\<lparr>pkt_log := (pkt_log c)[i := -1], in_flight_pkts := max 0 (in_flight_pkts c - 1),
    c_window := (if max 0 (in_flight_pkts c - 1) * 1000 > c_window c then c_window c + 29 else c_window c)\<rparr>"
  using assms by (auto simp: ack_link_def wf_link_def Let_def const_defs max_def)

text \<open>C22. An acknowledgement of the receiver releases one packet. The first link that has it in its log
  loses the entry and one packet in flight, and its window grows by 29 if the packets still in flight, times 1000, exceed
  it; no other link loses an entry or a packet, and none does if no link has it. Then
  the window of every link that was ever heard from grows by one, up to 60000, and nothing else changes.\<close>

theorem srtla_ack_releases_one:
  assumes "list_all wf_link cs"
  defines "grown \<equiv> \<lambda>c. if c_last_rcvd c = 0 then c else c\<lparr>c_window := min (c_window c + 1) 60000\<rparr>"
  shows "if \<forall>c\<in>set cs. \<not> logged ack c then register_srtla_ack ack False cs = map grown cs
    else \<exists>xs c ys i n. cs = xs @ c # ys \<and> (\<forall>d\<in>set xs. \<not> logged ack d) \<and> slot c i \<and> pkt_log c ! i = ack \<and>
      n = max 0 (in_flight_pkts c - 1) \<and>
      register_srtla_ack ack False cs = map grown (xs @ c\<lparr>pkt_log := (pkt_log c)[i := -1], in_flight_pkts := n,
        c_window := (if n * 1000 > c_window c then c_window c + 29 else c_window c)\<rparr> # ys)"
proof (cases "\<forall>c\<in>set cs. \<not> logged ack c")
  case True
  with assms(1) show ?thesis by (simp add: grown_def srtla_ack_none grow_link_spec fun_eq_iff)
next
  case False
  obtain xs c ys i where "cs = xs @ c # ys" "\<forall>d\<in>set xs. \<not> logged ack d" "slot c i" "pkt_log c ! i = ack" and c: "wf_link c"
    and r: "register_srtla_ack ack False cs = map grow_link (xs @ ack_link (int i) c # ys)"
    by (rule srtla_ack_logged [OF assms(1) False])
  moreover have "grow_link = grown" by (simp add: fun_eq_iff grown_def grow_link_spec)
  ultimately show ?thesis
    unfolding if_not_P [OF False] by (metis ack_link_spec [OF c])
qed

section \<open>SRT acknowledgements\<close>

lemma clear_step_fold:
  assumes "distinct ps" "\<And>i. i \<in> set ps \<Longrightarrow> 0 \<le> i \<and> nat i < length log"
  shows "fold (clear_step ack) ps (log, count) =
    (map (\<lambda>i. if int i \<in> set ps \<and> log ! i < ack then -1 else log ! i) [0..<length log],
     count + int (length (filter (\<lambda>i. ack \<le> log ! nat i) ps)))"
  using assms
proof (induction ps arbitrary: log count)
  case Nil
  show ?case by (simp add: map_nth)
next
  case (Cons p ps)
  then have p: "0 \<le> p" "nat p < length log" "p \<notin> set ps" by auto
  show ?case
  proof (cases "log ! nat p < ack")
    case True
    define l where "l = log[nat p := -1]"
    have same: "l ! nat i = log ! nat i" if "i \<in> set ps" for i
      using that p Cons.prems(2) [of i] by (auto simp: l_def nth_list_update nat_eq_iff)
    have "fold (clear_step ack) ps (l, count) =
      (map (\<lambda>i. if int i \<in> set ps \<and> l ! i < ack then -1 else l ! i) [0..<length l],
       count + int (length (filter (\<lambda>i. ack \<le> l ! nat i) ps)))"
      using Cons.prems by (intro Cons.IH) (simp_all add: l_def)
    moreover have "filter (\<lambda>i. ack \<le> l ! nat i) ps = filter (\<lambda>i. ack \<le> log ! nat i) ps"
      using same by (intro filter_cong) simp_all
    moreover have "map (\<lambda>i. if int i \<in> set ps \<and> l ! i < ack then -1 else l ! i) [0..<length l] =
        map (\<lambda>i. if int i \<in> set (p # ps) \<and> log ! i < ack then -1 else log ! i) [0..<length log]"
      using p True by (auto simp: l_def nth_list_update)
    ultimately show ?thesis using True by (simp add: clear_step_def [of _ p] l_def)
  next
    case False
    have "fold (clear_step ack) ps (log, count + 1) =
      (map (\<lambda>i. if int i \<in> set ps \<and> log ! i < ack then -1 else log ! i) [0..<length log],
       (count + 1) + int (length (filter (\<lambda>i. ack \<le> log ! nat i) ps)))"
      using Cons.prems by (intro Cons.IH) simp_all
    moreover have "map (\<lambda>i. if int i \<in> set ps \<and> log ! i < ack then -1 else log ! i) [0..<length log] =
        map (\<lambda>i. if int i \<in> set (p # ps) \<and> log ! i < ack then -1 else log ! i) [0..<length log]"
      using p False by auto
    ultimately show ?thesis using False by (simp add: clear_step_def [of _ p])
  qed
qed

lemma clear_acked_log:
  assumes "wf_link c"
  shows "clear_acked PKT_LOG_SZ (pkt_log c) (pkt_idx c) (get_pkt_idx (pkt_idx c) (-1)) ack 0 =
    (map (\<lambda>i. if slot c i \<and> pkt_log c ! i < ack then -1 else pkt_log c ! i) [0..<PKT_LOG_SZ],
     int (card {i. slot c i \<and> ack \<le> pkt_log c ! i}))"
proof -
  let ?ps = "positions (pkt_idx c) 1"
  have idx: "0 \<le> pkt_idx c" "pkt_idx c < int PKT_LOG_SZ" and len: "length (pkt_log c) = PKT_LOG_SZ"
    using assms by (simp_all add: wf_link_def)
  have ps: "set ?ps = int ` {i. slot c i}" using positions_set [OF idx] .
  have "get_pkt_idx (pkt_idx c) (-1) = (pkt_idx c - int 1) mod int PKT_LOG_SZ"
    using get_pkt_idx_back [of "pkt_idx c" 0] idx by simp
  then have "clear_acked PKT_LOG_SZ (pkt_log c) (pkt_idx c) (get_pkt_idx (pkt_idx c) (-1)) ack 0 =
      fold (clear_step ack) ?ps (pkt_log c, 0)"
    using clear_acked_eq [OF idx, of 1 PKT_LOG_SZ] by (simp add: PKT_LOG_SZ_def)
  also have "\<dots> = (map (\<lambda>i. if int i \<in> set ?ps \<and> pkt_log c ! i < ack then -1 else pkt_log c ! i) [0..<length (pkt_log c)],
     0 + int (length (filter (\<lambda>i. ack \<le> pkt_log c ! nat i) ?ps)))"
    using positions_distinct ps len by (intro clear_step_fold) (auto simp: slot_def)
  finally have r: "clear_acked PKT_LOG_SZ (pkt_log c) (pkt_idx c) (get_pkt_idx (pkt_idx c) (-1)) ack 0 = \<dots>" .
  have "length (filter (\<lambda>i. ack \<le> pkt_log c ! nat i) ?ps) = card (set (filter (\<lambda>i. ack \<le> pkt_log c ! nat i) ?ps))"
    using distinct_card [OF distinct_filter [OF positions_distinct]] by simp
  also have "set (filter (\<lambda>i. ack \<le> pkt_log c ! nat i) ?ps) = int ` {i. slot c i \<and> ack \<le> pkt_log c ! i}"
    using ps by (auto simp: set_filter)
  finally have "length (filter (\<lambda>i. ack \<le> pkt_log c ! nat i) ?ps) = card {i. slot c i \<and> ack \<le> pkt_log c ! i}"
    by (simp add: card_image)
  moreover have "int i \<in> set ?ps \<longleftrightarrow> slot c i" for i using ps by auto
  ultimately show ?thesis by (simp add: r len)
qed

text \<open>The server acknowledges cumulatively, and each connection of the group relays the acknowledgement: it has
  no further effect when it is heard again.\<close>

lemma srt_ack_again:
  assumes wf: "wf_link c" and "0 \<le> ack"
  shows "conn_register_srt_ack ack (conn_register_srt_ack ack c) = conn_register_srt_ack ack c"
proof -
  define d where "d = conn_register_srt_ack ack c"
  have log: "pkt_log d ! i = (if slot c i \<and> pkt_log c ! i < ack then -1 else pkt_log c ! i)" if "i < PKT_LOG_SZ" for i
    using that by (simp add: d_def conn_register_srt_ack_def clear_acked_log [OF wf])
  have d: "wf_link d" "slot d = slot c" "length (pkt_log d) = PKT_LOG_SZ"
    "in_flight_pkts d = int (card {i. slot c i \<and> ack \<le> pkt_log c ! i})"
    using wf by (auto simp: d_def conn_register_srt_ack_def clear_acked_log [OF wf] wf_link_def slot_def fun_eq_iff)
  have "slot c i \<and> ack \<le> pkt_log d ! i \<longleftrightarrow> slot c i \<and> ack \<le> pkt_log c ! i" for i
    using log [of i] assms(2) by (auto simp: slot_def split: if_splits)
  moreover have "map (\<lambda>i. if slot c i \<and> pkt_log d ! i < ack then -1 else pkt_log d ! i) [0..<PKT_LOG_SZ] = pkt_log d"
    using d(3) log assms(2) by (intro nth_equalityI) auto
  ultimately have "clear_acked PKT_LOG_SZ (pkt_log d) (pkt_idx d) (get_pkt_idx (pkt_idx d) (-1)) ack 0 =
      (pkt_log d, in_flight_pkts d)"
    by (simp add: clear_acked_log [OF d(1)] d(2,4))
  then show ?thesis unfolding d_def [symmetric] by (simp add: conn_register_srt_ack_def)
qed

text \<open>C23. An acknowledgement of the SRT server up to a sequence number clears, on every link, exactly the entries
  of smaller numbers among those examined, and leaves as many packets in flight as entries remain that
  are not smaller.\<close>

theorem srt_ack_clears_log:
  assumes "wf_link c"
  shows "pkt_log (conn_register_srt_ack ack c) =
      map (\<lambda>i. if slot c i \<and> pkt_log c ! i < ack then -1 else pkt_log c ! i) [0..<PKT_LOG_SZ] \<and>
    in_flight_pkts (conn_register_srt_ack ack c) = int (card {i. slot c i \<and> ack \<le> pkt_log c ! i})"
  using assms by (simp add: conn_register_srt_ack_def clear_acked_log)

section \<open>The choice of a link\<close>

lemma score_nonneg: "wf_link c \<Longrightarrow> 0 \<le> score c"
  by (simp add: wf_link_def score_def signed_divide_int_def const_defs pos_imp_zdiv_nonneg_iff)

definition best :: "time_t \<Rightarrow> conn_t list \<Rightarrow> conn_t \<Rightarrow> conn_t list \<Rightarrow> bool" where
  "best t xs c ys \<longleftrightarrow> \<not> link_timed_out c t \<and>
     (\<forall>d\<in>set xs. link_timed_out d t \<or> score d < score c) \<and>
     (\<forall>d\<in>set ys. link_timed_out d t \<or> score d \<le> score c)"

lemma best_link_spec:
  "case best_link t cs m ms of
     None \<Rightarrow> m = None \<and> (\<forall>c\<in>set cs. link_timed_out c t \<or> score c \<le> ms)
   | Some c \<Rightarrow> (\<exists>xs ys. cs = xs @ c # ys \<and> best t xs c ys \<and> ms < score c) \<or>
       m = Some c \<and> (\<forall>d\<in>set cs. link_timed_out d t \<or> score d \<le> ms)"
proof (induction t cs m ms rule: best_link.induct)
  case (2 t c cs m ms)
  have extend: "\<exists>xs ys. c # cs = xs @ d # ys \<and> best t xs d ys \<and> ms < score d"
    if "cs = xs @ d # ys" "best t xs d ys" "ms < score d" "link_timed_out c t \<or> score c < score d" for d xs ys
    using that by (intro exI [of _ "c # xs"] exI [of _ ys]) (auto simp: best_def)
  consider (out) "link_timed_out c t" | (better) "\<not> link_timed_out c t" "ms < score c"
    | (worse) "\<not> link_timed_out c t" "score c \<le> ms" by linarith
  then show ?case
  proof cases
    case out
    with "2.IH"(1) [OF out] extend show ?thesis by (auto split: option.splits)
  next
    case better
    have first: "\<exists>xs ys. c # cs = xs @ c # ys \<and> best t xs c ys \<and> ms < score c"
      if "\<forall>d\<in>set cs. link_timed_out d t \<or> score d \<le> score c"
      using that better by (intro exI [of _ "[]"] exI [of _ cs]) (auto simp: best_def)
    have later: "\<exists>xs ys. c # cs = xs @ d # ys \<and> best t xs d ys \<and> ms < score d"
      if "cs = xs @ d # ys" "best t xs d ys" "score c < score d" for d xs ys
      using extend [OF that(1,2)] that(3) better by simp
    from "2.IH"(2) [OF better] better first later show ?thesis
      by (auto split: option.splits)
  next
    case worse
    then have "\<not> ms < score c" by simp
    with "2.IH"(3) [OF worse(1) this] worse extend show ?thesis by (fastforce split: option.splits)
  qed
qed (simp split: option.split)

lemma upd_link_at:
  assumes "distinct (map cptr (xs @ c # ys))" "links s = xs @ c # ys" "cptr c = p"
  shows "links (upd_link p f s) = xs @ f c # ys"
proof -
  have "map (\<lambda>d. if cptr d = p then f d else d) zs = zs" if "\<forall>d\<in>set zs. cptr d \<noteq> p" for zs
    using that by (simp add: map_idI)
  moreover have "\<forall>d\<in>set xs. cptr d \<noteq> p" "\<forall>d\<in>set ys. cptr d \<noteq> p" using assms by (auto simp: image_iff)
  ultimately show ?thesis using assms by (simp add: upd_link_def)
qed

lemma caller_packet_cases:
  assumes wf: "wf_sender s" and r: "so_recvfrom os (snd_tick s) fd = Some (data, from)" "length data \<le> MTU"
    and clock: "get_seconds (so_clock os (Suc (snd_tick s))) = Some t"
  defines "s' \<equiv> snd_handle_srt_data os fd s" and "sn \<equiv> get_srt_sn data (int (length data))"
  obtains (dropped) "\<forall>c\<in>set (links s). link_timed_out c t" "links s' = links s" "snd_out s' = snd_out s"
  | (sent) xs c ys where "links s = xs @ c # ys" "best t xs c ys" "snd_out s' = snd_out s @ [To_Srtla (c_fd c) data]"
      "links s' = xs @
         (if so_sendto os (Suc (Suc (snd_tick s))) (c_fd c) (int (length data)) data \<noteq> int (length data)
          then c\<lparr>c_last_sent := t, c_last_rcvd := 1\<rparr>
          else if sn < 0 then c\<lparr>c_last_sent := t\<rparr> else reg_pkt sn (c\<lparr>c_last_sent := t\<rparr>)) # ys"
proof -
  define s1 where "s1 = (snd_called s)\<lparr>srt_caller := from\<rparr>"
  have s1: "links s1 = links s" "snd_out s1 = snd_out s" "snd_tick s1 = Suc (snd_tick s)"
    by (simp_all add: s1_def snd_called_def)
  have recv: "recv_caller os fd s = (int (length data), data, s1)" using r by (simp add: recv_caller_def s1_def)
  note spec = best_link_spec [where t = t and cs = "links s" and m = None and ms = "-1"]
  show thesis
  proof (cases "best_link t (links s) None (-1)")
    case None
    then have "s' = snd_called s1"
      using clock by (simp add: s'_def snd_handle_srt_data_def recv select_conn_def s1)
    moreover have "link_timed_out c t" if "c \<in> set (links s)" for c
      using None spec that score_nonneg [of c] wf by (fastforce simp: wf_sender_def list_all_iff)
    ultimately show thesis using s1 by (intro dropped) (simp_all add: snd_called_def)
  next
    case (Some c)
    then obtain xs ys where c: "links s = xs @ c # ys" "best t xs c ys" using spec by auto
    define s2 where "s2 = upd_link (cptr c) (\<lambda>c. c\<lparr>c_last_sent := t\<rparr>) (snd_called s1)"
    define n where "n = int (length data)"
    define s3 where "s3 = snd_emit (To_Srtla (c_fd c) data) (snd_called s2)"
    have d: "distinct (map cptr (xs @ c # ys))" using wf c(1) by (simp add: wf_sender_def)
    have l3: "links s3 = xs @ c\<lparr>c_last_sent := t\<rparr> # ys"
      using upd_link_at [OF d, of "snd_called s1" "cptr c"] c(1) s1(1) by (simp add: s3_def s2_def)
    have t2: "snd_tick s2 = Suc (Suc (snd_tick s))" "snd_out s3 = snd_out s @ [To_Srtla (c_fd c) data]"
      using s1 by (simp_all add: s2_def s3_def upd_link_def snd_called_def snd_emit_def)
    have "s' = (if so_sendto os (Suc (Suc (snd_tick s))) (c_fd c) n data = n
        then if get_srt_sn data n \<ge> 0 then upd_link (cptr c) (reg_pkt (get_srt_sn data n)) s3 else s3
        else upd_link (cptr c) (\<lambda>c. c\<lparr>c_last_rcvd := 1\<rparr>) s3)"
      using clock Some
      by (simp add: s'_def snd_handle_srt_data_def recv select_conn_def s1 send_srtla_def s3_def s2_def [symmetric]
          n_def [symmetric] t2 Let_def)
    moreover have u: "links (upd_link (cptr c) f s3) = xs @ f (c\<lparr>c_last_sent := t\<rparr>) # ys" for f
      by (rule upd_link_at) (use d l3 in simp_all)
    moreover have "snd_out (upd_link p f s3) = snd_out s3" for p f by (simp add: upd_link_def)
    ultimately show thesis
      using c t2 l3 by (intro sent [of xs c ys]) (simp_all add: n_def sn_def)
  qed
qed

text \<open>C13. A packet of the SRT caller is sent once, unchanged, on the best link: one that was heard from
  in the last four seconds and has the highest ratio of window to packets in flight, the first
  of those in the list. It is entered in the log of that link, and counted in flight, only if
  it is a data packet that was sent in full; if it was not, the link is disabled until it is heard from
  again. No other link changes, and if all links have timed out the packet is dropped.\<close>

theorem packet_takes_best_link:
  assumes wf: "wf_sender s" and r: "so_recvfrom os (snd_tick s) fd = Some (data, from)" "length data \<le> MTU"
    and clock: "get_seconds (so_clock os (Suc (snd_tick s))) = Some t"
  defines "s' \<equiv> snd_handle_srt_data os fd s"
  shows "(\<forall>c\<in>set (links s). link_timed_out c t) \<and> links s' = links s \<and> snd_out s' = snd_out s \<or>
    (\<exists>xs c ys. links s = xs @ c # ys \<and> best t xs c ys \<and> snd_out s' = snd_out s @ [To_Srtla (c_fd c) data] \<and>
       links s' = xs @
         (if so_sendto os (Suc (Suc (snd_tick s))) (c_fd c) (int (length data)) data \<noteq> int (length data)
          then c\<lparr>c_last_sent := t, c_last_rcvd := 1\<rparr>
          else if get_srt_sn data (int (length data)) < 0 then c\<lparr>c_last_sent := t\<rparr>
          else reg_pkt (get_srt_sn data (int (length data))) (c\<lparr>c_last_sent := t\<rparr>)) # ys)"
  unfolding s'_def using caller_packet_cases [OF assms(1-4)] by metis

end
