(* ===== verification/Sender_Packets.thy ===== *)
theory Sender_Packets
  imports Sender_Links
begin

text \<open>
  What a datagram of the receiver does to the sender: the case distinction on its type, and the loss
  reports of the SRT server.
\<close>

section \<open>A datagram that reaches the sender\<close>

text \<open>A link of the sender receives a datagram at a given time, and what the sender sends leaves in full.\<close>

definition delivering :: "byte list \<Rightarrow> time_t \<Rightarrow> sender_os \<Rightarrow> sender_os" where
  "delivering data ts os = os\<lparr>so_recvfrom := \<lambda>t fd. Some (data, zero_addr), so_clock := \<lambda>t. Some (ts, 0),
     so_sendto := \<lambda>t fd n b. n\<rparr>"

definition hears :: "sender_os \<Rightarrow> byte list \<Rightarrow> time_t \<Rightarrow> conn_t \<Rightarrow> sender \<Rightarrow> sender_failure + sender" where
  "hears os data ts c s = handle_srtla_data (delivering data ts os) c s"

lemma hears_eq:
  assumes "2 \<le> length data" "length data \<le> MTU"
  shows "hears os data ts c s =
    (let k = delivering data ts os; s' = snd_called (snd_called s); buf = data @ drop (length data) (so_stack os (snd_tick s))
     in if be16 data 0 = SRTLA_TYPE_REG_NGP then Inr (handle_ngp k c ts s')
        else if be16 data 0 = SRTLA_TYPE_REG2 then Inr (handle_reg2 k c buf ts s')
        else dispatch_srtla data buf (be16 data 0) (upd_link (cptr c) (\<lambda>c. c\<lparr>c_last_rcvd := ts\<rparr>) s'))"
proof -
  let ?buf = "data @ drop (length data) (so_stack os (snd_tick s))"
  have "get_srt_type ?buf (int (length data)) = be16 data 0"
    using assms(1) by (simp add: get_srt_type_def be_append_left)
  moreover have "take MTU data = data" "data \<noteq> []" using assms by auto
  ultimately show ?thesis
    using assms by (simp add: hears_def handle_srtla_data_def delivering_def get_seconds_def Let_def)
qed

section \<open>Loss reports\<close>

text \<open>A loss list of SRT: single packets, and ranges whose first word has its top bit set.\<close>

datatype loss = Lost_One u32 | Lost_Range u32 u32

fun loss_words :: "loss \<Rightarrow> u32 list" where
  "loss_words (Lost_One a) = [a]"
| "loss_words (Lost_Range a b) = [a OR 0x80000000, b]"

fun lost_packets :: "loss \<Rightarrow> int list" where
  "lost_packets (Lost_One a) = [uint a]"
| "lost_packets (Lost_Range a b) = [uint a..uint b]"

fun loss_ok :: "loss \<Rightarrow> bool" where
  "loss_ok (Lost_One a) \<longleftrightarrow> a < 0x80000000"
| "loss_ok (Lost_Range a b) \<longleftrightarrow> a < 0x80000000 \<and> b < 0x7FFFFFFF"

definition nak_packet :: "byte list \<Rightarrow> loss list \<Rightarrow> byte list" where
  "nak_packet header losses = header @ concat (map put_be32 (concat (map loss_words losses)))"

lemma range_word:
  assumes "a < 0x80000000"
  shows "(a OR 0x80000000) AND push_bit 31 1 \<noteq> 0" "(a OR 0x80000000) AND 0x7FFFFFFF = a" "a AND push_bit 31 (1 :: u32) = 0"
    "sint a = uint a"
proof -
  have c: "0x80000000 = (push_bit 31 1 :: u32)" "0x7FFFFFFF = (mask 31 :: u32)" by (simp_all add: mask_eq_exp_minus_1)
  have "take_bit 31 a = a" using less_mask_eq [of a 31] assms by (simp add: take_bit_eq_mask)
  then have bits: "n < 31" if "bit a n" for n using that by (metis bit_take_bit_iff)
  have "bit ((a OR push_bit 31 1) AND push_bit 31 1) 31" by (simp add: bit_simps)
  then show "(a OR 0x80000000) AND push_bit 31 1 \<noteq> 0" unfolding c by (metis bit_0_eq bot_apply bot_bool_def)
  show "(a OR 0x80000000) AND 0x7FFFFFFF = a" unfolding c
    by (rule bit_word_eqI, simp only: bit_and_iff bit_or_iff bit_push_bit_iff bit_mask_iff) (auto simp: bit_1_iff dest: bits)
  show "a AND push_bit 31 1 = 0"
    by (rule bit_word_eqI, simp only: bit_and_iff bit_or_iff bit_push_bit_iff bit_mask_iff) (auto simp: bit_1_iff dest: bits)
  have "uint a < 2 ^ 31" using assms by (simp add: word_less_def)
  moreover have "- (2 ^ 31) \<le> uint a" by (rule order_trans [of _ 0]) simp_all
  ultimately show "sint a = uint a" using signed_take_bit_int_eq_self [of 31 "uint a"] by (simp add: sint_uint)
qed

lemma nak_range_fold:
  "0 \<le> lost \<Longrightarrow> lost < 2 ^ 31 \<Longrightarrow> last_id < 0x7FFFFFFF \<Longrightarrow>
     nak_range lost last_id cs = Inr (fold register_nak [lost..uint last_id] cs)"
proof (induction lost last_id cs rule: nak_range.induct)
  case (1 lost last_id cs)
  have le: "(word_of_int lost \<le> last_id) = (lost \<le> uint last_id)"
    using 1(2,3) by (simp add: word_le_def uint_word_of_int)
  have u: "uint last_id < 2 ^ 31 - 1" using 1(4) by (simp add: word_less_def)
  show ?case
  proof (cases "lost \<le> uint last_id")
    case True
    with u have "\<not> lost \<ge> 2 ^ 31 - 1" by simp
    with True le 1 u show ?thesis by (subst nak_range.simps) (simp add: upto_rec1)
  next
    case False
    with le show ?thesis by (subst nak_range.simps) simp
  qed
qed

lemma nak_range_overflows:
  "0 \<le> lost \<Longrightarrow> lost < 2 ^ 31 \<Longrightarrow> 0x7FFFFFFF \<le> last_id \<Longrightarrow> nak_range lost last_id cs = Inl Signed_Overflow"
proof (induction lost last_id cs rule: nak_range.induct)
  case (1 lost last_id cs)
  have u: "2 ^ 31 - 1 \<le> uint last_id" using 1(4) by (simp add: word_le_def)
  then have "word_of_int lost \<le> last_id"
    using 1(2,3) by (simp add: word_le_def uint_word_of_int)
  with 1 show ?case by (subst nak_range.simps) simp
qed

lemma nak_ids_fold:
  assumes "\<forall>x\<in>set losses. loss_ok x" "length (concat (map loss_words losses)) \<le> fuel"
    and "\<And>k. k < length (concat (map loss_words losses)) \<Longrightarrow> read_id buf (i + k) = Some (concat (map loss_words losses) ! k)"
  shows "nak_ids fuel buf (i + length (concat (map loss_words losses))) i cs =
    Inr (fold register_nak (concat (map lost_packets losses)) cs)"
  using assms
proof (induction losses arbitrary: fuel i cs)
  case Nil
  then show ?case by (cases fuel) simp_all
next
  case (Cons x losses)
  let ?ws = "concat (map loss_words losses)"
  obtain f where f: "fuel = Suc f" using Cons.prems(2) by (cases x; cases fuel) auto
  have rest: "read_id buf (i + length (loss_words x) + k) = Some (?ws ! k)" if "k < length ?ws" for k
    using Cons.prems(3) [of "length (loss_words x) + k"] that by (simp add: nth_append add.assoc)
  have IH: "nak_ids f buf (i + length (loss_words x) + length ?ws) (i + length (loss_words x)) cs' =
      Inr (fold register_nak (concat (map lost_packets losses)) cs')" for cs'
    by (rule Cons.IH) (use Cons.prems(1,2) rest f in \<open>cases x; auto\<close>)+
  show ?case
  proof (cases x)
    case (Lost_One a)
    then have a: "a < 0x80000000" "read_id buf i = Some a" using Cons.prems(1) Cons.prems(3) [of 0] by simp_all
    then show ?thesis using IH [of "register_nak (uint a) cs"] range_word [OF a(1)] by (simp add: f Lost_One)
  next
    case (Lost_Range a b)
    then have a: "a < 0x80000000" "b < 0x7FFFFFFF" "read_id buf i = Some (a OR 0x80000000)" "read_id buf (i + 1) = Some b"
      using Cons.prems(1) Cons.prems(3) [of 0] Cons.prems(3) [of 1] by simp_all
    have "uint a < 2 ^ 31" using a(1) by (simp add: word_less_def)
    then have "nak_range (uint a) b cs = Inr (fold register_nak [uint a..uint b] cs)"
      using a(2) by (intro nak_range_fold) simp_all
    then show ?thesis
      using IH [of "fold register_nak [uint a..uint b] cs"] range_word [OF a(1)] a(3,4) by (simp add: f Lost_Range)
  qed
qed

lemma nak_packet_word:
  assumes "length header = 16" "length (nak_packet header losses) \<le> MTU" "k < length (concat (map loss_words losses))"
  shows "read_id (nak_packet header losses @ xs) (4 + k) = Some (concat (map loss_words losses) ! k)"
proof -
  have "length (nak_packet header losses) = 16 + 4 * length (concat (map loss_words losses))"
    using assms(1) by (simp add: nak_packet_def length_concat [of "map put_be32 _"] comp_def sum_list_triv)
  then have "4 * (4 + k) + 4 \<le> MTU" using assms(2,3) by simp
  then show ?thesis using assms(1,3) by (simp add: read_id_def nak_packet_def be_append_right be32_concat)
qed

lemma nak_heard:
  fixes losses ts c s
  defines "ws \<equiv> concat (map loss_words losses)"
    and "heard \<equiv> map (\<lambda>d. if cptr d = cptr c then d\<lparr>c_last_rcvd := ts\<rparr> else d) (links s)"
  assumes "length header = 16" "be16 header 0 = SRT_TYPE_NAK" "length (nak_packet header losses) \<le> MTU"
  obtains buf s' where "snd_out s' = snd_out s" "srt_caller s' = srt_caller s"
    "hears os (nak_packet header losses) ts c s = (case nak_ids MTU buf (4 + length ws) 4 heard of
       Inl e \<Rightarrow> Inl e | Inr cs \<Rightarrow> Inr (relay_to_srt (nak_packet header losses) (s'\<lparr>links := cs\<rparr>)))"
    "\<And>k. k < length ws \<Longrightarrow> read_id buf (4 + k) = Some (ws ! k)" "length ws \<le> MTU"
proof -
  let ?d = "nak_packet header losses"
  let ?s = "upd_link (cptr c) (\<lambda>c. c\<lparr>c_last_rcvd := ts\<rparr>) (snd_called (snd_called s))"
  have l: "length ?d = 16 + 4 * length ws"
    using assms(3) by (simp add: nak_packet_def ws_def length_concat [of "map put_be32 _"] comp_def sum_list_triv)
  have t: "be16 ?d 0 = SRT_TYPE_NAK" "2 \<le> length ?d"
    using assms(3,4) by (simp_all add: nak_packet_def be_append_left)
  have "SRT_TYPE_NAK \<notin> {SRTLA_TYPE_REG_NGP, SRTLA_TYPE_REG2, SRT_TYPE_ACK}" by (simp add: const_defs)
  moreover have "length ?d div 4 = 4 + length ws" unfolding l by simp
  moreover have "links ?s = heard" "snd_out ?s = snd_out s" "srt_caller ?s = srt_caller s"
    by (simp_all add: heard_def upd_link_def snd_called_def)
  ultimately show thesis
    using nak_packet_word [OF assms(3,5)] l assms(5) unfolding ws_def [symmetric]
    by (intro that [of ?s "?d @ drop (length ?d) (so_stack os (snd_tick s))"])
      (simp_all add: hears_eq [OF t(2) assms(5)] t(1) dispatch_srtla_def Let_def)
qed

text \<open>C15. A loss report of the SRT server charges exactly the packets it lists: every single packet and
  every packet of every range, each once and in the order of the report, on the links; and the
  report is relayed unchanged to the SRT caller. The loop over the report ends without a fault as
  long as no range reaches the last sequence number \<open>0x7FFFFFFF\<close>.\<close>

theorem loss_report_charged:
  assumes "length header = 16" "be16 header 0 = SRT_TYPE_NAK" "length (nak_packet header losses) \<le> MTU"
    and "\<forall>x\<in>set losses. loss_ok x"
  shows "\<exists>s'. hears os (nak_packet header losses) ts c s = Inr s' \<and>
    links s' = fold register_nak (concat (map lost_packets losses))
      (map (\<lambda>d. if cptr d = cptr c then d\<lparr>c_last_rcvd := ts\<rparr> else d) (links s)) \<and>
    snd_out s' = snd_out s @ [To_Srt (srt_caller s) (nak_packet header losses)]"
proof -
  obtain buf s' where s': "snd_out s' = snd_out s" "srt_caller s' = srt_caller s"
    and res: "hears os (nak_packet header losses) ts c s =
      (case nak_ids MTU buf (4 + length (concat (map loss_words losses))) 4
          (map (\<lambda>d. if cptr d = cptr c then d\<lparr>c_last_rcvd := ts\<rparr> else d) (links s)) of
         Inl e \<Rightarrow> Inl e | Inr cs \<Rightarrow> Inr (relay_to_srt (nak_packet header losses) (s'\<lparr>links := cs\<rparr>)))"
    and words: "\<And>k. k < length (concat (map loss_words losses)) \<Longrightarrow> read_id buf (4 + k) = Some (concat (map loss_words losses) ! k)"
      "length (concat (map loss_words losses)) \<le> MTU"
    by (rule nak_heard [OF assms(1-3), where s = s and os = os and ts = ts and c = c]) (rule that)
  have "nak_ids MTU buf (4 + length (concat (map loss_words losses))) 4 cs =
      Inr (fold register_nak (concat (map lost_packets losses)) cs)" for cs
    using assms(4) words(2,1) by (rule nak_ids_fold)
  then show ?thesis
    using s' by (simp add: res relay_to_srt_def snd_called_def snd_emit_def del: length_concat)
qed

text \<open>C16. A loss report with a range that reaches \<open>0x7FFFFFFF\<close> or beyond makes the sender increment a signed 32-bit
  counter past its maximum, which is undefined behaviour, whatever the range starts with. Such
  reports are relayed by the receiver from the network.\<close>

theorem loss_range_overflow:
  assumes "length header = 16" "be16 header 0 = SRT_TYPE_NAK" "a < 0x80000000" "0x7FFFFFFF \<le> b"
  shows "hears os (nak_packet header [Lost_Range a b]) ts c s = Inl Signed_Overflow"
proof -
  have len: "length (nak_packet header [Lost_Range a b]) \<le> MTU" using assms(1) by (simp add: nak_packet_def MTU_def)
  obtain buf s' where "snd_out s' = snd_out s" "srt_caller s' = srt_caller s"
    and res: "hears os (nak_packet header [Lost_Range a b]) ts c s =
      (case nak_ids MTU buf (4 + length (concat (map loss_words [Lost_Range a b]))) 4
          (map (\<lambda>d. if cptr d = cptr c then d\<lparr>c_last_rcvd := ts\<rparr> else d) (links s)) of
         Inl e \<Rightarrow> Inl e | Inr cs \<Rightarrow> Inr (relay_to_srt (nak_packet header [Lost_Range a b]) (s'\<lparr>links := cs\<rparr>)))"
    and words: "\<And>k. k < length (concat (map loss_words [Lost_Range a b])) \<Longrightarrow>
      read_id buf (4 + k) = Some (concat (map loss_words [Lost_Range a b]) ! k)"
    and "length (concat (map loss_words [Lost_Range a b])) \<le> MTU"
    by (rule nak_heard [OF assms(1,2) len, where s = s and os = os and ts = ts and c = c]) (rule that)
  have "uint a < 2 ^ 31" using assms(3) by (simp add: word_less_def)
  then have "nak_range (uint a) b cs = Inl Signed_Overflow" for cs
    using assms(4) by (intro nak_range_overflows) simp_all
  then have "nak_ids (Suc f) buf 6 4 cs = Inl Signed_Overflow" for f cs
    using words [of 0] words [of 1] range_word(1,2) [OF assms(3)] by simp
  moreover have "MTU = Suc (MTU - 1)" by (simp add: MTU_def)
  ultimately have "nak_ids MTU buf 6 4 cs = Inl Signed_Overflow" for cs by metis
  then show ?thesis by (simp add: res)
qed

end
