(* ===== verification/Bonding.thy ===== *)
theory Bonding
  imports Handshake Sender_Packets
begin

text \<open>
  The sender and the receiver together: each reads what the other writes. The steps of the
  registration as the sender takes them, and the acknowledgements of the receiver as the
  sender takes them in.
\<close>

section \<open>Registration\<close>

lemma delivered_sends:
  assumes "0 \<le> c_fd c"
  shows "send_reg1 (delivering data ts os) c s =
      (0, snd_emit (To_Srtla (c_fd c) (put_be16 SRTLA_TYPE_REG1 @ srtla_id s)) (snd_called s))"
    "send_reg2 (delivering data ts os) c s =
      (0, snd_emit (To_Srtla (c_fd c) (put_be16 SRTLA_TYPE_REG2 @ srtla_id s)) (snd_called s))"
  using assms by (simp_all add: send_reg1_def send_reg2_def send_srtla_def delivering_def)

lemma ngp_heard:
  assumes "0 \<le> c_fd c" "active_connections s = 0" "pending_reg2_conn s = None" "pending_reg_timeout s < ts"
  shows "\<exists>s'. hears os (pad32 (put_be16 SRTLA_TYPE_REG_NGP)) ts c s = Inr s' \<and>
    snd_out s' = snd_out s @ [To_Srtla (c_fd c) (put_be16 SRTLA_TYPE_REG1 @ srtla_id s)] \<and>
    pending_reg2_conn s' = Some (cptr c) \<and> srtla_id s' = srtla_id s \<and> links s' = links s \<and>
    active_connections s' = 0"
proof -
  let ?d = "pad32 (put_be16 SRTLA_TYPE_REG_NGP)"
  have t: "be16 ?d 0 = SRTLA_TYPE_REG_NGP" "2 \<le> length ?d" "length ?d \<le> MTU"
    by (simp_all add: pad32_def be16_put_be16 MTU_def)
  show ?thesis
    using assms by (simp add: hears_eq [OF t(2,3)] t(1) handle_ngp_def delivered_sends snd_called_def snd_emit_def Let_def)
qed

lemma broadcast_out:
  "snd_out (broadcast_reg2 (delivering data ts os) cs s) =
     snd_out s @ map (\<lambda>c. To_Srtla (c_fd c) (put_be16 SRTLA_TYPE_REG2 @ srtla_id s)) (filter (\<lambda>c. 0 \<le> c_fd c) cs) \<and>
   srtla_id (broadcast_reg2 (delivering data ts os) cs s) = srtla_id s \<and>
   active_connections (broadcast_reg2 (delivering data ts os) cs s) = active_connections s"
proof (induction cs arbitrary: s)
  case (Cons c cs)
  have "c_fd c < 0 \<Longrightarrow> send_reg2 (delivering data ts os) c s = (-1, s)" by (simp add: send_reg2_def)
  with Cons show ?case by (cases "0 \<le> c_fd c") (simp_all add: delivered_sends snd_emit_def snd_called_def)
qed simp

lemma reg2_heard:
  assumes "pending_reg2_conn s = Some (cptr c)" "length i = SRTLA_ID_LEN"
    and "take (SRTLA_ID_LEN div 2) i = take (SRTLA_ID_LEN div 2) (srtla_id s)"
  shows "\<exists>s'. hears os (put_be16 SRTLA_TYPE_REG2 @ i) ts c s = Inr s' \<and> srtla_id s' = i \<and> links s' = links s \<and>
    pending_reg2_conn s' = None \<and> active_connections s' = active_connections s \<and>
    snd_out s' = snd_out s @ map (\<lambda>d. To_Srtla (c_fd d) (put_be16 SRTLA_TYPE_REG2 @ i)) (filter (\<lambda>d. 0 \<le> c_fd d) (links s))"
proof -
  let ?d = "put_be16 SRTLA_TYPE_REG2 @ i"
  have t: "be16 ?d 0 = SRTLA_TYPE_REG2" "2 \<le> length ?d" "length ?d \<le> MTU"
    using assms(2) by (simp_all add: be16_put_be16 const_defs)
  have "SRTLA_TYPE_REG2 \<noteq> SRTLA_TYPE_REG_NGP" by (simp add: const_defs)
  moreover have "srtla_id (snd_called (snd_called s)) = srtla_id s" by (simp add: snd_called_def)
  ultimately show ?thesis
    using assms by (simp add: hears_eq [OF t(2,3)] t(1) handle_reg2_def Let_def broadcast_reg2_frame broadcast_out)
      (simp add: snd_called_def)
qed

lemma reg3_heard:
  "\<exists>s'. hears os (pad32 (put_be16 SRTLA_TYPE_REG3)) ts c s = Inr s' \<and> has_connected s' \<and>
    active_connections s' = active_connections s + 1 \<and> srtla_id s' = srtla_id s \<and>
    links s' = map (\<lambda>d. if cptr d = cptr c then d\<lparr>c_last_rcvd := ts\<rparr> else d) (links s)"
proof -
  let ?d = "pad32 (put_be16 SRTLA_TYPE_REG3)"
  have t: "be16 ?d 0 = SRTLA_TYPE_REG3" "2 \<le> length ?d" "length ?d \<le> MTU"
    by (simp_all add: pad32_def be16_put_be16 MTU_def)
  have "SRTLA_TYPE_REG3 \<notin> {SRTLA_TYPE_REG_NGP, SRTLA_TYPE_REG2, SRT_TYPE_ACK, SRT_TYPE_NAK, SRTLA_TYPE_ACK, SRTLA_TYPE_KEEPALIVE}"
    by (simp add: const_defs)
  then show ?thesis
    by (simp add: hears_eq [OF t(2,3)] t(1) dispatch_srtla_def Let_def upd_link_def snd_called_def)
qed

text \<open>Several links receive the same datagram, one after the other.\<close>

fun hear_each :: "sender_os \<Rightarrow> byte list \<Rightarrow> time_t \<Rightarrow> conn_t list \<Rightarrow> sender \<Rightarrow> sender_failure + sender" where
  "hear_each os data ts [] s = Inr s"
| "hear_each os data ts (c # cs) s =
     (case hears os data ts c s of Inl e \<Rightarrow> Inl e | Inr s \<Rightarrow> hear_each os data ts cs s)"

lemma reg3_each:
  "\<exists>s'. hear_each os (pad32 (put_be16 SRTLA_TYPE_REG3)) ts cs s = Inr s' \<and> (cs \<noteq> [] \<longrightarrow> has_connected s') \<and>
    (has_connected s \<longrightarrow> has_connected s') \<and>
    active_connections s' = active_connections s + int (length cs) \<and> srtla_id s' = srtla_id s \<and>
    links s' = map (\<lambda>d. if cptr d \<in> cptr ` set cs then d\<lparr>c_last_rcvd := ts\<rparr> else d) (links s)"
proof (induction cs arbitrary: s)
  case (Cons c cs)
  obtain s1 where s1: "hears os (pad32 (put_be16 SRTLA_TYPE_REG3)) ts c s = Inr s1" "has_connected s1"
    "active_connections s1 = active_connections s + 1" "srtla_id s1 = srtla_id s"
    "links s1 = map (\<lambda>d. if cptr d = cptr c then d\<lparr>c_last_rcvd := ts\<rparr> else d) (links s)"
    using reg3_heard by blast
  from Cons.IH [of s1] s1 show ?case by (auto simp: comp_def)
qed simp

section \<open>Acknowledgements\<close>

lemma srtla_acks_fold:
  "srtla_acks buf ks cs = fold (\<lambda>w. register_srtla_ack (sint w) False) (map (\<lambda>k. be32 buf (4 * k)) ks) cs"
  by (induction ks arbitrary: cs) simp_all

lemma ack_words:
  assumes "n = Suc (length sns)"
  shows "map (\<lambda>k. be32 (srtla_ack_pkt sns @ xs) (4 * k)) [1..<n] = sns"
proof (rule nth_equalityI)
  fix i assume "i < length (map (\<lambda>k. be32 (srtla_ack_pkt sns @ xs) (4 * k)) [1..<n])"
  then have "i < length sns" using assms by (simp del: upt_Suc)
  then show "map (\<lambda>k. be32 (srtla_ack_pkt sns @ xs) (4 * k)) [1..<n] ! i = sns ! i"
    using assms by (simp add: srtla_ack_pkt_def be_append_right be32_concat del: upt_Suc)
qed (use assms in \<open>simp del: upt_Suc\<close>)

text \<open>C25. The sender reads from an SRTLA ACK exactly the sequence numbers the receiver put into it, in that
  order: it counts the link as heard from, releases the packets one after the other, and sends
  nothing to the SRT caller.\<close>

theorem srtla_ack_roundtrip:
  assumes "length (srtla_ack_pkt sns) \<le> MTU"
  shows "\<exists>s'. hears os (srtla_ack_pkt sns) ts c s = Inr s' \<and> snd_out s' = snd_out s \<and>
    links s' = fold (\<lambda>sn. register_srtla_ack (sint sn) False) sns
      (map (\<lambda>d. if cptr d = cptr c then d\<lparr>c_last_rcvd := ts\<rparr> else d) (links s))"
proof -
  let ?d = "srtla_ack_pkt sns"
  have l: "length ?d = 4 * Suc (length sns)"
    by (simp add: srtla_ack_pkt_def length_concat comp_def sum_list_triv)
  have t: "be16 ?d 0 = SRTLA_TYPE_ACK" "2 \<le> length ?d" "length ?d \<le> MTU"
    using assms l by (simp_all add: MTU_def) (simp add: srtla_ack_pkt_def put_be32_def be16_def const_defs)
  have "SRTLA_TYPE_ACK \<notin> {SRTLA_TYPE_REG_NGP, SRTLA_TYPE_REG2, SRT_TYPE_ACK, SRT_TYPE_NAK}"
    by (simp add: const_defs)
  then show ?thesis
    using ack_words [of "length ?d div 4" sns] l
    by (simp add: hears_eq [OF t(2,3)] t(1) dispatch_srtla_def Let_def srtla_acks_fold upd_link_def snd_called_def)
qed

end
