(* ===== verification/Sender_Descriptors.thy ===== *)
theory Sender_Descriptors
  imports Sender_Invariant
begin

text \<open>
  The descriptors of the sender: every socket it opens is closed again, or held by a link or as the
  listener.
\<close>

section \<open>The descriptor ledger\<close>

fun snd_opened_in :: "sender_effect list \<Rightarrow> int list" where
  "snd_opened_in [] = []"
| "snd_opened_in (Snd_Opened fd # es) = fd # snd_opened_in es"
| "snd_opened_in (e # es) = snd_opened_in es"

fun snd_closed_in :: "sender_effect list \<Rightarrow> int list" where
  "snd_closed_in [] = []"
| "snd_closed_in (Snd_Closed fd # es) = fd # snd_closed_in es"
| "snd_closed_in (e # es) = snd_closed_in es"

lemma snd_opened_in_append [simp]: "snd_opened_in (es @ fs) = snd_opened_in es @ snd_opened_in fs"
  by (induction es rule: snd_opened_in.induct) simp_all

lemma snd_closed_in_append [simp]: "snd_closed_in (es @ fs) = snd_closed_in es @ snd_closed_in fs"
  by (induction es rule: snd_closed_in.induct) simp_all

text \<open>The descriptors of the links, the one of the listener, those opened and those closed.\<close>
definition ledger :: "sender \<Rightarrow> int list \<times> int \<times> int list \<times> int list" where
  "ledger s = (map c_fd (links s), listenfd s, snd_opened_in (snd_out s), snd_closed_in (snd_out s))"

definition balanced :: "int list \<Rightarrow> sender \<Rightarrow> bool" where
  "balanced ls s \<longleftrightarrow> (\<forall>fd \<ge> 0. count_list (snd_opened_in (snd_out s)) fd =
     count_list (snd_closed_in (snd_out s)) fd + count_list (map c_fd (links s)) fd + count_list ls fd)"

lemma balanced_ledger: "ledger s' = ledger s \<Longrightarrow> balanced ls s' = balanced ls s"
  by (simp add: ledger_def balanced_def)

text \<open>Updates of a link that leave its descriptor alone.\<close>

locale quiet_update = link_update +
  assumes keeps_fd: "c_fd (f c) = c_fd c"
begin

lemma fds_map: "map c_fd (map f cs) = map c_fd cs"
  by (simp add: keeps_fd)

lemma ledger_upd: "ledger (upd_link p f s) = ledger s"
  by (simp add: ledger_def upd_link_def keeps_fd cong: if_cong)

end

interpretation reg_pkt: quiet_update "reg_pkt packet" for packet
  by unfold_locales (simp add: reg_pkt_def)

interpretation nak_link: quiet_update "nak_link i" for i
  by unfold_locales (simp add: nak_link_def)

interpretation ack_link: quiet_update "ack_link i" for i
  by unfold_locales (simp add: ack_link_def Let_def)

interpretation grow_link: quiet_update grow_link
  by unfold_locales (simp add: grow_link_def)

interpretation srt_ack: quiet_update "conn_register_srt_ack ack" for ack
  by unfold_locales (simp add: conn_register_srt_ack_def split: prod.split)

interpretation reset_link: quiet_update reset_link
  by unfold_locales (simp add: reset_link_def)

interpretation heard: quiet_update "\<lambda>c. c\<lparr>c_last_rcvd := t\<rparr>" for t
  by unfold_locales simp

interpretation used: quiet_update "\<lambda>c. c\<lparr>c_last_sent := t\<rparr>" for t
  by unfold_locales simp

interpretation marked: quiet_update "\<lambda>c. c\<lparr>c_removed := b\<rparr>" for b
  by unfold_locales simp

section \<open>Operations that open and close nothing\<close>

lemma fds_nak: "map c_fd (register_nak packet cs) = map c_fd cs"
  by (induction cs) (auto simp: nak_link.keeps_fd split: option.split)

lemma fds_nak_range: "nak_range lost last_id cs = Inr ds \<Longrightarrow> map c_fd ds = map c_fd cs"
proof (induction lost last_id cs rule: nak_range.induct)
  case (1 lost last_id cs)
  from 1(2) show ?case
    by (subst (asm) nak_range.simps) (auto split: if_splits simp: 1(1) fds_nak)
qed

lemma fds_nak_ids: "nak_ids fuel buf words i cs = Inr ds \<Longrightarrow> map c_fd ds = map c_fd cs"
  by (induction fuel buf words i cs rule: nak_ids.induct)
    (auto split: if_splits option.splits sum.splits simp: fds_nak dest: fds_nak_range)

lemma fds_srtla_ack: "map c_fd (register_srtla_ack ack found cs) = map c_fd cs"
  by (induction cs arbitrary: found) (auto simp: grow_link.keeps_fd ack_link.keeps_fd split: option.split)

lemma fds_srtla_acks: "map c_fd (srtla_acks buf ks cs) = map c_fd cs"
  by (induction buf ks cs rule: srtla_acks.induct) (simp_all add: fds_srtla_ack)

lemma ledger_frame [simp]:
  "ledger (snd_called s) = ledger s" "ledger (snd_emit (To_Srtla fd b) s) = ledger s"
  "ledger (snd_emit (To_Srt a b) s) = ledger s"
  "ledger (snd (add_active_fd fd s)) = ledger s" "ledger (snd (remove_active_fd fd s)) = ledger s"
  "ledger (set_srtla_addr a s) = ledger s" "ledger (snd (send_srtla os fd n b s)) = ledger s"
  "ledger (snd (send_reg1 os c s)) = ledger s" "ledger (snd (send_reg2 os c s)) = ledger s"
  "ledger (snd_keepalive os c s) = ledger s"
  by (simp_all add: ledger_def snd_called_def snd_emit_def add_active_fd_def remove_active_fd_def set_srtla_addr_def
      send_srtla_def send_reg1_def send_reg2_def snd_keepalive_def Let_def)

lemma ledger_fields [simp]:
  "ledger (s\<lparr>srt_caller := a\<rparr>) = ledger s" "ledger (s\<lparr>active_connections := n\<rparr>) = ledger s"
  "ledger (s\<lparr>has_connected := b\<rparr>) = ledger s" "ledger (s\<lparr>pending_reg_timeout := t\<rparr>) = ledger s"
  "ledger (s\<lparr>all_failed_at := ms\<rparr>) = ledger s" "ledger (s\<lparr>last_ran := ms\<rparr>) = ledger s"
  "ledger (s\<lparr>addrs := as\<rparr>) = ledger s" "ledger (s\<lparr>pending_reg2_conn := p\<rparr>) = ledger s"
  "ledger (s\<lparr>do_update_conns := b\<rparr>) = ledger s" "ledger (s\<lparr>srtla_id := i\<rparr>) = ledger s"
  by (simp_all add: ledger_def)

lemmas ledger_upds [simp] = reg_pkt.ledger_upd reset_link.ledger_upd heard.ledger_upd used.ledger_upd marked.ledger_upd

lemma ledger_links: "map c_fd cs = map c_fd (links s) \<Longrightarrow> ledger (s\<lparr>links := cs\<rparr>) = ledger s"
  by (simp add: ledger_def)

lemma ledger_handle_srt_data: "ledger (snd_handle_srt_data os fd s) = ledger s"
proof -
  obtain n buf s1 where r: "recv_caller os fd s = (n, buf, s1)" by (cases "recv_caller os fd s") auto
  then have s1: "ledger s1 = ledger s" by (auto simp: recv_caller_def split: option.splits)
  obtain co s2 where s2: "select_conn os s1 = (co, s2)" by fastforce
  have "ledger (snd (select_conn os s1)) = ledger s1" by (simp add: select_conn_def split: option.split)
  with s1 s2 have l2: "ledger s2 = ledger s" by simp
  have "ledger (snd (send_srtla os fd n buf s2)) = ledger s" for fd using l2 by simp
  with l2 show ?thesis
    by (simp add: snd_handle_srt_data_def r s2 Let_def split_def split: option.split)
qed

lemma ledger_broadcast: "ledger (broadcast_reg2 os cs s) = ledger s"
  by (induction cs arbitrary: s) simp_all

lemma ledger_dispatch: "dispatch_srtla data buf typ s = Inr s' \<Longrightarrow> ledger s' = ledger s"
  by (auto simp: dispatch_srtla_def relay_to_srt_def register_srt_ack_def srt_ack.keeps_fd fds_srtla_acks
      intro!: ledger_links dest: fds_nak_ids split: if_splits sum.splits)

lemma ledger_handle_srtla_data: 
  assumes "handle_srtla_data os c s = Inr s'" shows "ledger s' = ledger s"
proof -
  have "ledger (handle_ngp os c ts s1) = ledger s1" for ts s1
    using ledger_frame(8) [of os c s1] by (cases "send_reg1 os c s1") (simp add: handle_ngp_def)
  moreover have "ledger (handle_reg2 os c buf ts s1) = ledger s1" for buf ts s1
    by (simp add: handle_reg2_def Let_def ledger_broadcast)
  ultimately show ?thesis
    using assms by (auto simp: handle_srtla_data_def Let_def dest!: ledger_dispatch split: option.splits if_splits)
qed

section \<open>Operations that open and close\<close>

text \<open>A descriptor that is held outside the links while it is handed over.\<close>

lemma link_split:
  assumes "get_link p s = Some c" "wf_sender s"
  obtains xs ys where "links s = xs @ c # ys" "\<And>f. links (upd_link p f s) = xs @ f c # ys"
    "filter (\<lambda>d. cptr d \<noteq> p) (links s) = xs @ ys"
proof -
  have c: "c \<in> set (links s)" "cptr c = p" using get_link_Some [OF assms(1)] by simp_all
  obtain xs ys where l: "links s = xs @ c # ys" using split_list [OF c(1)] by blast
  have n: "\<forall>d\<in>set xs. cptr d \<noteq> p" "\<forall>d\<in>set ys. cptr d \<noteq> p"
    using assms(2) c(2) by (auto simp: wf_sender_def l image_iff)
  then have "map (\<lambda>d. if cptr d = p then f d else d) xs = xs" "map (\<lambda>d. if cptr d = p then f d else d) ys = ys" for f
    by (simp_all add: map_idI)
  with n c(2) show thesis by (intro that [of xs ys]) (simp_all add: l upd_link_def filter_id_conv)
qed

lemma balanced_opened: "balanced ls s \<Longrightarrow> balanced (fd # ls) (snd_emit (Snd_Opened fd) s)"
  by (simp add: balanced_def snd_emit_def)

lemma balanced_closed: "balanced (fd # ls) s \<Longrightarrow> balanced ls (snd_close fd s)"
  by (auto simp: balanced_def snd_close_def snd_called_def snd_emit_def)

lemma balanced_give:
  assumes "balanced (fd # ls) s" "get_link p s = Some c" "wf_sender s" "c_fd c < 0"
  shows "balanced ls (upd_link p (\<lambda>c. c\<lparr>c_fd := fd\<rparr>) s)"
proof -
  obtain xs ys where "links s = xs @ c # ys" "\<And>f. links (upd_link p f s) = xs @ f c # ys"
    "filter (\<lambda>d. cptr d \<noteq> p) (links s) = xs @ ys"
    by (rule link_split [OF assms(2,3)]) (rule that)
  moreover have "snd_out (upd_link p f s) = snd_out s" for f by (simp add: upd_link_def)
  ultimately show ?thesis using assms(1,4) by (auto simp: balanced_def)
qed

lemma balanced_take:
  assumes "balanced ls s" "get_link p s = Some c" "wf_sender s"
  shows "balanced (c_fd c # ls) (upd_link p (\<lambda>c. c\<lparr>c_fd := -1\<rparr>) s)"
    "balanced (c_fd c # ls) (s\<lparr>links := filter (\<lambda>d. cptr d \<noteq> p) (links s)\<rparr>)"
proof -
  obtain xs ys where "links s = xs @ c # ys" "\<And>f. links (upd_link p f s) = xs @ f c # ys"
    "filter (\<lambda>d. cptr d \<noteq> p) (links s) = xs @ ys"
    by (rule link_split [OF assms(2,3)]) (rule that)
  moreover have "snd_out (upd_link p f s) = snd_out s" for f by (simp add: upd_link_def)
  ultimately show "balanced (c_fd c # ls) (upd_link p (\<lambda>c. c\<lparr>c_fd := -1\<rparr>) s)"
    "balanced (c_fd c # ls) (s\<lparr>links := filter (\<lambda>d. cptr d \<noteq> p) (links s)\<rparr>)"
    using assms(1) by (auto simp: balanced_def)
qed

lemma balanced_frame [simp]: "balanced ls (snd_called s) = balanced ls s"
  "balanced ls (snd (add_active_fd fd s)) = balanced ls s" "balanced ls (snd (remove_active_fd fd s)) = balanced ls s"
  "balanced ls (s\<lparr>pending_reg2_conn := p\<rparr>) = balanced ls s"
  by (rule balanced_ledger, simp)+

lemma close_commutes: "upd_link p f (snd_close fd s) = snd_close fd (upd_link p f s)"
  by (simp add: upd_link_def snd_close_def snd_emit_def snd_called_def)

lemma get_link_frame [simp]:
  "get_link p (snd_called s) = get_link p s" "get_link p (snd_emit e s) = get_link p s" "get_link p (snd_close fd s) = get_link p s"
  "get_link p (snd (add_active_fd fd s)) = get_link p s" "get_link p (snd (remove_active_fd fd s)) = get_link p s"
  by (simp_all add: get_link_def)

lemma get_link_upd: "(\<And>c. cptr (f c) = cptr c) \<Longrightarrow> get_link p (upd_link p f s) = map_option f (get_link p s)"
proof -
  assume f: "\<And>c. cptr (f c) = cptr c"
  have "find (\<lambda>c. cptr c = p) (map (\<lambda>c. if cptr c = p then f c else c) cs) = map_option f (find (\<lambda>c. cptr c = p) cs)" for cs
    by (induction cs) (auto simp: f)
  then show ?thesis by (simp add: get_link_def upd_link_def)
qed

lemma balanced_open_socket:
  assumes "wf_sender s" "balanced ls s" "get_link p s = Some c"
  shows "balanced ls (snd (open_socket os p s))"
proof -
  define s1 where "s1 = (if c_fd c \<ge> 0 then upd_link p (\<lambda>c. c\<lparr>c_fd := -1\<rparr>)
      (snd_close (c_fd c) (snd (remove_active_fd (c_fd c) s))) else s)"
  have s1: "wf_sender s1" "balanced ls s1"
    using assms by (auto simp: s1_def close_commutes intro!: with_fd.wf_upd balanced_closed balanced_take)
  have "\<exists>c1. get_link p s1 = Some c1 \<and> c_fd c1 < 0" using assms(3) by (simp add: s1_def get_link_upd)
  then obtain c1 where c1: "get_link p s1 = Some c1" "c_fd c1 < 0" by blast
  have give: "balanced ls (upd_link p (\<lambda>c. c\<lparr>c_fd := fd\<rparr>) (snd (add_active_fd fd s')))"
    if "balanced (fd # ls) s'" "get_link p s' = Some c1" "wf_sender s'" for fd s'
    using that c1(2) by (intro balanced_give [where c = c1]) simp_all
  show ?thesis
    using s1 c1 unfolding open_socket_def assms(3) option.case s1_def [symmetric] Let_def
    by (auto intro!: give balanced_closed balanced_opened)
qed

lemma get_link_in: "wf_sender s \<Longrightarrow> c \<in> set (links s) \<Longrightarrow> get_link (cptr c) s = Some c"
proof -
  have "distinct (map cptr cs) \<Longrightarrow> c \<in> set cs \<Longrightarrow> find (\<lambda>d. cptr d = cptr c) cs = Some c" for cs
    by (induction cs) (auto simp: image_iff)
  then show "wf_sender s \<Longrightarrow> c \<in> set (links s) \<Longrightarrow> ?thesis" by (simp add: get_link_def wf_sender_def)
qed

lemma balanced_drop_removed:
  assumes "wf_sender s" "balanced ls s" "distinct (map cptr cs)" "set cs \<subseteq> set (links s)"
  shows "balanced ls (drop_removed cs s)"
  using assms
proof (induction cs s rule: drop_removed.induct)
  case (2 c cs s)
  define s1 where "s1 = (if pending_reg2_conn s = Some (cptr c) then s\<lparr>pending_reg2_conn := None\<rparr> else s)"
  define s2 where "s2 = snd (remove_active_fd (c_fd c) s1)"
  define s3 where "s3 = (snd_close (c_fd c) s2)\<lparr>links := filter (\<lambda>d. cptr d \<noteq> cptr c) (links (snd_close (c_fd c) s2))\<rparr>"
  have s3: "wf_sender s3" unfolding s3_def s2_def s1_def using "2.prems"(1) by (rule wf_drop_one)
  have s2: "wf_sender s2" "balanced ls s2" "links s2 = links s"
    using "2.prems"(1,2) by (simp_all add: s2_def s1_def)
  then have "get_link (cptr c) s2 = Some c" using "2.prems"(4) by (simp add: get_link_in)
  note balanced_closed [OF balanced_take(2) [OF s2(2) this s2(1)]]
  moreover have "s3 = snd_close (c_fd c) (s2\<lparr>links := filter (\<lambda>d. cptr d \<noteq> cptr c) (links s2)\<rparr>)"
    by (simp add: s3_def snd_close_def snd_emit_def snd_called_def)
  ultimately have "balanced ls s3" by simp
  moreover have "distinct (map cptr cs)" "set cs \<subseteq> set (links s3)"
    using "2.prems"(3,4) s2(3) by (auto simp: s3_def image_iff)
  ultimately have "c_removed c \<Longrightarrow> balanced ls (drop_removed cs s3)"
    using "2.IH"(1) [OF _ s1_def refl refl] s3 by (simp add: s3_def s2_def)
  moreover have "drop_removed (c # cs) s = (if c_removed c then drop_removed cs s3 else drop_removed cs s)"
    unfolding drop_removed.simps Let_def s3_def s2_def s1_def by (rule refl)
  ultimately show ?case using "2.IH"(2) "2.prems" by simp
qed simp

lemma balanced_add_lines:
  "balanced ls (snd (add_lines os lines n s)) = balanced ls s \<and> listenfd (snd (add_lines os lines n s)) = listenfd s"
proof (induction os lines n s rule: add_lines.induct)
  case (2 os line lines n s)
  have "balanced ls (s\<lparr>links := new_link (snd_fresh s) src # links s, snd_fresh := Suc (snd_fresh s)\<rparr>) = balanced ls s" for src
    by (auto simp: balanced_def new_link_def)
  moreover have "balanced ls (upd_link p (\<lambda>c. c\<lparr>c_removed := False\<rparr>) s) = balanced ls s" for p
    by (rule balanced_ledger) simp
  moreover have "listenfd (upd_link p f s) = listenfd s" for p f by (simp add: upd_link_def)
  ultimately show ?case using 2 by (simp split: option.split)
qed simp

section \<open>The program\<close>

definition accounted :: "sender \<Rightarrow> bool" where
  "accounted s \<longleftrightarrow> wf_sender s \<and> balanced [listenfd s] s"

lemma accounted_ledger: "accounted s \<Longrightarrow> wf_sender s' \<Longrightarrow> ledger s' = ledger s \<Longrightarrow> accounted s'"
  by (simp add: accounted_def ledger_def balanced_def)

lemma accounted_called [simp]: "accounted (snd_called s) = accounted s"
  by (simp add: accounted_def) (simp add: snd_called_def)

lemma listenfd_open_socket: "listenfd (snd (open_socket os p s)) = listenfd s"
  by (simp add: open_socket_def Let_def upd_link_def snd_close_def snd_emit_def snd_called_def
      add_active_fd_def remove_active_fd_def split: option.split)

lemma accounted_open_socket: "accounted s \<Longrightarrow> get_link p s = Some c \<Longrightarrow> accounted (snd (open_socket os p s))"
  by (simp add: accounted_def listenfd_open_socket wf_open_socket balanced_open_socket)

lemma accounted_housekeep_link: "accounted s \<Longrightarrow> accounted (housekeep_link os t p s)"
proof (cases "get_link p s")
  case (Some c)
  assume a: "accounted s"
  show ?thesis
  proof (cases "c_fd c < 0")
    case True
    then show ?thesis using accounted_open_socket [OF a Some] by (simp add: housekeep_link_def Some)
  next
    case False
    then have "ledger (housekeep_link os t p s) = ledger s" by (simp add: housekeep_link_def Some Let_def)
    with a show ?thesis by (intro accounted_ledger [OF a] wf_housekeep_link) (simp_all add: accounted_def)
  qed
qed (simp add: housekeep_link_def)

lemma accounted_housekeep_links: "accounted s \<Longrightarrow> accounted (housekeep_links os t ps s)"
  by (induction os t ps s rule: housekeep_links.induct) (simp_all add: accounted_housekeep_link)

lemma ledger_all_failed: "check_all_failed ms s = Inr s' \<Longrightarrow> ledger s' = ledger s"
  by (auto simp: check_all_failed_def Let_def split: if_splits list.splits)

lemma accounted_housekeeping:
  assumes "accounted s" and "connection_housekeeping os s = Inr s'"
  shows "accounted s'"
proof (cases "get_ms (so_clock os (snd_tick s))")
  case None
  with assms show ?thesis by (auto simp: connection_housekeeping_def)
next
  case (Some ms)
  define t where "t = uint (ms div 1000)"
  define s1 where "s1 = (snd_called s)\<lparr>active_connections := 0\<rparr>"
  define s2 where "s2 = (if pending_reg2_conn s1 \<noteq> None \<and> t > pending_reg_timeout s1
      then s1\<lparr>pending_reg2_conn := None\<rparr> else s1)"
  have "accounted s2"
    using assms(1) by (intro accounted_ledger [OF assms(1)]) (simp_all add: s2_def s1_def accounted_def)
  then have a: "accounted (housekeep_links os t (map cptr (links s2)) s2)" by (rule accounted_housekeep_links)
  have "s' = snd_called s \<or> (\<exists>s3. check_all_failed ms (housekeep_links os t (map cptr (links s2)) s2) = Inr s3 \<and>
      s' = s3\<lparr>last_ran := ms\<rparr>)"
    using assms(2) unfolding connection_housekeeping_def Some option.case Let_def
      t_def [symmetric] s1_def [symmetric] s2_def [symmetric]
    by (auto split: if_splits sum.splits)
  moreover have "wf_sender s'" using assms wf_housekeeping by (auto simp: accounted_def)
  ultimately show ?thesis
    using assms(1) a accounted_ledger ledger_all_failed by (metis ledger_fields(6) ledger_frame(1))
qed

lemma accounted_handle_links:
  "accounted s \<Longrightarrow> full_stack os \<Longrightarrow> handle_links os ready ps s = Inr s' \<Longrightarrow> accounted s'"
proof (induction os ready ps s rule: handle_links.induct)
  case (2 os ready p ps s)
  show ?case
  proof (cases "get_link p s")
    case (Some c)
    show ?thesis
    proof (cases "c_fd c \<ge> 0 \<and> c_fd c \<in> set ready")
      case True
      with "2.prems"(3) Some obtain s1 where s1: "handle_srtla_data os c s = Inr s1" "handle_links os ready ps s1 = Inr s'"
        by (auto split: sum.splits)
      have "wf_sender s1"
        using wf_handle_srtla_data [OF _ "2.prems"(2) _ s1(1)] get_link_Some [OF Some] "2.prems"(1) by (simp add: accounted_def)
      then have "accounted s1" using accounted_ledger [OF "2.prems"(1)] ledger_handle_srtla_data [OF s1(1)] by simp
      with 2 Some True s1 show ?thesis by simp
    qed (use 2 Some in auto)
  qed (use 2 in simp)
qed simp

lemma accounted_serve:
  assumes a: "accounted s" and st: "full_stack os" and res: "serve_ready os s = Inr s'"
  shows "accounted s'"
proof -
  define ready where "ready = filter (so_ready os (snd_tick s)) (active_fds s)"
  define s1 where "s1 = (if listenfd (snd_called s) \<in> set ready
      then snd_handle_srt_data os (listenfd (snd_called s)) (snd_called s) else snd_called s)"
  have wf: "wf_sender s" using a by (simp add: accounted_def)
  have a0: "accounted (snd_called s)" using a by simp
  then have a1: "accounted s1"
    using wf by (intro accounted_ledger [OF a0]) (simp_all add: s1_def wf_handle_srt_data ledger_handle_srt_data)
  have "s' = snd_called s \<or> handle_links os ready (map cptr (links s1)) s1 = Inr s'"
    using res unfolding serve_ready_def Let_def ready_def [symmetric] s1_def [symmetric] by (auto split: if_splits)
  with a0 accounted_handle_links [OF a1 st] show ?thesis by auto
qed

lemma balanced_setup_conns:
  assumes "setup_conns os s = Inr (n, s')"
  shows "balanced ls s' = balanced ls s \<and> listenfd s' = listenfd s"
proof -
  obtain lines where "add_lines os lines 0 (snd_called s) = (n, s')"
    using assms by (auto simp: setup_conns_def split: option.splits)
  moreover have "listenfd (snd_called s) = listenfd s" by (simp add: snd_called_def)
  ultimately show ?thesis using balanced_add_lines [of ls os lines 0 "snd_called s"] by simp
qed

lemma listenfd_drop_removed: "listenfd (drop_removed cs s) = listenfd s"
  by (induction cs s rule: drop_removed.induct)
    (simp_all add: Let_def snd_close_def snd_emit_def snd_called_def remove_active_fd_def)

lemma accounted_update_conns:
  assumes "accounted s" "update_conns os s = Inr s'"
  shows "accounted s'"
proof -
  let ?s = "s\<lparr>links := map (\<lambda>c. c\<lparr>c_removed := True\<rparr>) (links s)\<rparr>"
  have wf: "wf_sender ?s" using assms(1) by (auto simp: accounted_def intro!: wf_links marked.evolved_map)
  have "ledger ?s = ledger s" by (rule ledger_links) simp
  then have a: "accounted ?s" using accounted_ledger [OF assms(1) wf] by simp
  obtain n s1 where s1: "setup_conns os ?s = Inr (n, s1)" "s' = drop_removed (links s1) s1"
    using assms(2) by (auto simp: update_conns_def split: sum.splits)
  have "wf_sender s1" using wf s1(1) by (rule wf_setup_conns)
  moreover from this have "balanced [listenfd s1] (drop_removed (links s1) s1)"
    using balanced_setup_conns [OF s1(1)] a by (intro balanced_drop_removed) (auto simp: accounted_def wf_sender_def)
  ultimately show ?thesis by (simp add: accounted_def s1(2) wf_drop_removed listenfd_drop_removed)
qed

lemma accounted_iteration:
  assumes "accounted s" and "full_stack os" and "sender_iteration os s = Inr s'"
  shows "accounted s'"
proof -
  obtain s1 s2 where s1: "s1 = s \<or> (\<exists>s0. update_conns os s = Inr s0 \<and> s1 = s0\<lparr>do_update_conns := False\<rparr>)"
    "connection_housekeeping os s1 = Inr s2" "serve_ready os s2 = Inr s'"
    using assms(3) by (auto simp: sender_iteration_def split: if_splits sum.splits)
  have "accounted (s0\<lparr>do_update_conns := False\<rparr>)" if "accounted s0" for s0
    using that by (intro accounted_ledger [OF that]) (simp_all add: accounted_def)
  then have "accounted s1" using s1(1) assms(1) accounted_update_conns by auto
  then show ?thesis using accounted_housekeeping s1(2,3) assms(2) accounted_serve by blast
qed

lemma cptrs_open_socket: "cptr ` set (links (snd (open_socket os p s))) = cptr ` set (links s)"
proof -
  have "map cptr (links (upd_link p (\<lambda>c. c\<lparr>c_fd := fd\<rparr>) s)) = map cptr (links s)" for fd s
    using with_fd.evolved_upd evolved_keys(1) by blast
  then have "cptr ` set (links (upd_link p (\<lambda>c. c\<lparr>c_fd := fd\<rparr>) s)) = cptr ` set (links s)" for fd s
    by (metis list.set_map)
  then show ?thesis by (simp add: open_socket_def Let_def split: option.split)
qed

lemma accounted_open_conns:
  "accounted s \<Longrightarrow> set ps \<subseteq> cptr ` set (links s) \<Longrightarrow> accounted (snd (open_conns os ps n s))"
proof (induction os ps n s rule: open_conns.induct)
  case (2 os p ps n s)
  obtain c where "c \<in> set (links s)" "cptr c = p" using "2.prems"(2) by auto
  then have "get_link p s = Some c" using "2.prems"(1) get_link_in by (auto simp: accounted_def)
  then have "accounted (snd (open_socket os p s))" using "2.prems"(1) by (simp add: accounted_open_socket)
  then show ?case using 2 by (simp add: Let_def split_def cptrs_open_socket)
qed simp

lemma accounted_open_listener:
  assumes "wf_sender s" "balanced [] s" "open_listener os s = Inr s'"
  shows "accounted s'"
proof -
  have "ledger (t\<lparr>listenfd := fd\<rparr>) = (map c_fd (links t), fd, snd_opened_in (snd_out t), snd_closed_in (snd_out t))" for fd t
    by (simp add: ledger_def)
  with assms show ?thesis
    by (auto simp: open_listener_def Let_def accounted_def split: if_splits)
      (auto simp: balanced_def add_active_fd_def snd_called_def snd_emit_def)
qed

lemma accounted_start:
  assumes "sender_start os = Inr s"
  shows "accounted s"
proof -
  obtain n s1 rb s2 s3 k s4 as where
    s1: "setup_conns os idle_sender = Inr (n, s1)" and
    s2: "snd_random_bytes os (SRTLA_ID_LEN div 2) s1 = (Some rb, s2)" and
    s3: "open_listener os (s2\<lparr>srtla_id := rb @ drop (SRTLA_ID_LEN div 2) (srtla_id s2)\<rparr>) = Inr s3" and
    s4: "open_conns os (map cptr (links s3)) 0 s3 = (k, s4)" and
    s: "s = set_srtla_addr (hd as) ((snd_called s4)\<lparr>addrs := as\<rparr>)"
    using assms by (auto simp: sender_start_def split: sum.splits prod.splits option.splits if_splits)
  have "balanced [] idle_sender" by (simp add: balanced_def idle_sender_def)
  then have "wf_sender s1" "balanced [] s1"
    using wf_setup_conns [OF wf_idle s1] balanced_setup_conns [OF s1] by simp_all
  with s2 have "wf_sender s2" "length rb = SRTLA_ID_LEN div 2" "balanced [] s2"
    by (auto simp: snd_random_bytes_def split: option.splits if_splits)
  then have "wf_sender (s2\<lparr>srtla_id := rb @ drop (SRTLA_ID_LEN div 2) (srtla_id s2)\<rparr>)"
    "balanced [] (s2\<lparr>srtla_id := rb @ drop (SRTLA_ID_LEN div 2) (srtla_id s2)\<rparr>)"
    by (simp_all add: wf_sender_def SRTLA_ID_LEN_def balanced_def)
  then have "accounted s3" using s3 by (rule accounted_open_listener)
  then have "accounted s4" using accounted_open_conns [of s3 "map cptr (links s3)" os 0] s4 by simp
  moreover have "wf_sender s" using assms by (rule wf_start)
  ultimately show ?thesis using accounted_ledger by (simp add: s)
qed

text \<open>C8. The sender leaks no descriptor and closes none twice: in every reachable state and for every
  descriptor, the number of times it was opened is the number of times it was closed plus the number of
  links that hold it, plus one if it is the listener. Links are opened again after failures, removed
  on a hang-up signal, and replaced while they are open; none of this loses a socket.\<close>

theorem sender_descriptors_balance:
  assumes "sender_start os = Inr s0" "full_stack os" "sender_run os s0 s" "0 \<le> fd"
  shows "count_list (snd_opened_in (snd_out s)) fd =
    count_list (snd_closed_in (snd_out s)) fd + count_list (listenfd s # map c_fd (links s)) fd"
proof -
  from assms(3) have "accounted s"
  proof induction
    case start
    show ?case using assms(1) by (rule accounted_start)
  next
    case (hup s)
    then show ?case
      using accounted_ledger [OF hup(2), of "schedule_update_conns s"] by (simp add: schedule_update_conns_def accounted_def)
  next
    case (step s s')
    then show ?case using accounted_iteration [OF _ assms(2)] by simp
  qed
  then show ?thesis using assms(4) by (simp add: accounted_def balanced_def)
qed

end
