(* ===== verification/Sender_Upkeep.thy ===== *)
theory Sender_Upkeep
  imports Sender_Descriptors
begin

text \<open>
  The housekeeping of the sender: which links it counts as active, what it sends on them, and when
  it gives up.
\<close>

text \<open>What was sent to the receiver, and the fields that the upkeep of a link leaves alone.\<close>

definition to_srtla :: "sender \<Rightarrow> sender_effect list" where
  "to_srtla s = filter (\<lambda>e. case e of To_Srtla fd b \<Rightarrow> True | _ \<Rightarrow> False) (snd_out s)"

definition session :: "sender \<Rightarrow> nat option \<times> byte list \<times> u64 \<times> bool \<times> sockaddr_storage list" where
  "session s = (pending_reg2_conn s, srtla_id s, all_failed_at s, has_connected s, addrs s)"

definition active :: "time_t \<Rightarrow> conn_t \<Rightarrow> bool" where
  "active t c \<longleftrightarrow> 0 \<le> c_fd c \<and> \<not> link_timed_out c t"

text \<open>What a link is sent: nothing if it is closed; when it timed out, a registration, which is a REG1 only
  for the link the sender tries to register its group on and a REG2 when there is no such link; else
  a keepalive if it is idle.\<close>

definition upkeep :: "time_t \<Rightarrow> nat option \<Rightarrow> byte list \<Rightarrow> conn_t \<Rightarrow> sender_effect list" where
  "upkeep t pending i c =
     (if c_fd c < 0 then []
      else if link_timed_out c t then
        (case pending of
           None \<Rightarrow> [To_Srtla (c_fd c) (put_be16 SRTLA_TYPE_REG2 @ i)]
         | Some p \<Rightarrow> if p = cptr c then [To_Srtla (c_fd c) (put_be16 SRTLA_TYPE_REG1 @ i)] else [])
      else if c_last_sent c + IDLE_TIME < t then [To_Srtla (c_fd c) (put_be16 SRTLA_TYPE_KEEPALIVE)] else [])"

lemma upkeep_frame [simp]:
  "session (snd_called s) = session s" "session (snd_emit e s) = session s" "session (upd_link p f s) = session s"
  "session (snd_close fd s) = session s" "session (snd (add_active_fd fd s)) = session s"
  "session (snd (remove_active_fd fd s)) = session s" "session (s\<lparr>active_connections := n\<rparr>) = session s"
  "to_srtla (snd_called s) = to_srtla s" "to_srtla (upd_link p f s) = to_srtla s"
  "to_srtla (snd_emit (Snd_Opened fd) s) = to_srtla s" "to_srtla (snd_close fd s) = to_srtla s"
  "to_srtla (snd (add_active_fd fd s)) = to_srtla s" "to_srtla (snd (remove_active_fd fd s)) = to_srtla s"
  "to_srtla (snd_emit (To_Srtla fd b) s) = to_srtla s @ [To_Srtla fd b]" "to_srtla (s\<lparr>active_connections := n\<rparr>) = to_srtla s"
  by (simp_all add: session_def to_srtla_def snd_called_def snd_emit_def upd_link_def snd_close_def
      add_active_fd_def remove_active_fd_def)

lemma active_frame [simp]:
  "active_connections (snd_called s) = active_connections s" "active_connections (snd_emit e s) = active_connections s"
  "active_connections (upd_link p f s) = active_connections s" "active_connections (snd_close fd s) = active_connections s"
  "active_connections (snd (add_active_fd fd s)) = active_connections s"
  "active_connections (snd (remove_active_fd fd s)) = active_connections s"
  by (simp_all add: snd_called_def snd_emit_def upd_link_def snd_close_def add_active_fd_def remove_active_fd_def)

lemma get_link_other:
  "q \<noteq> p \<Longrightarrow> (\<And>c. cptr (f c) = cptr c) \<Longrightarrow> get_link q (upd_link p f s) = get_link q s"
proof -
  assume q: "q \<noteq> p" and f: "\<And>c. cptr (f c) = cptr c"
  have "find (\<lambda>c. cptr c = q) (map (\<lambda>c. if cptr c = p then f c else c) cs) = find (\<lambda>c. cptr c = q) cs" for cs
    using q by (induction cs) (auto simp: f)
  then show ?thesis by (simp add: get_link_def upd_link_def)
qed

lemma open_socket_frame:
  "session (snd (open_socket os p s)) = session s" "to_srtla (snd (open_socket os p s)) = to_srtla s"
  "active_connections (snd (open_socket os p s)) = active_connections s"
  "q \<noteq> p \<Longrightarrow> get_link q (snd (open_socket os p s)) = get_link q s"
  by (simp_all add: open_socket_def Let_def get_link_other split: option.split)

lemma housekeep_one:
  fixes os :: sender_os and t :: time_t
  assumes "get_link p s = Some c"
  defines "s' \<equiv> housekeep_link os t p s"
  shows "session s' = session s" "active_connections s' = active_connections s + (if active t c then 1 else 0)"
    "to_srtla s' = to_srtla s @ upkeep t (pending_reg2_conn s) (srtla_id s) c"
    "q \<noteq> p \<Longrightarrow> get_link q s' = get_link q s"
proof -
  have p: "cptr c = p" using get_link_Some [OF assms(1)] by simp
  have fields: "pending_reg2_conn (upd_link p f s) = pending_reg2_conn s" "srtla_id (upd_link p f s) = srtla_id s"
    "get_link q (s\<lparr>active_connections := n\<rparr>) = get_link q s" for f q n
    by (simp_all add: upd_link_def get_link_def)
  have "session s' = session s \<and> active_connections s' = active_connections s + (if active t c then 1 else 0) \<and>
    to_srtla s' = to_srtla s @ upkeep t (pending_reg2_conn s) (srtla_id s) c \<and>
    (q \<noteq> p \<longrightarrow> get_link q s' = get_link q s)" for q
    using p unfolding s'_def housekeep_link_def assms(1) option.case upkeep_def active_def
    by (simp add: open_socket_frame)
      (auto simp: Let_def fields send_reg1_def send_reg2_def snd_keepalive_def send_srtla_def get_link_other reset_link_def
        split: option.split)
  then show "session s' = session s" "active_connections s' = active_connections s + (if active t c then 1 else 0)"
    "to_srtla s' = to_srtla s @ upkeep t (pending_reg2_conn s) (srtla_id s) c"
    "q \<noteq> p \<Longrightarrow> get_link q s' = get_link q s"
    by simp_all
qed

lemma housekeep_all:
  assumes "distinct (map cptr cs)" "\<forall>c\<in>set cs. get_link (cptr c) s = Some c"
  defines "s' \<equiv> \<lambda>os t. housekeep_links os t (map cptr cs) s"
  shows "session (s' os t) = session s \<and>
    active_connections (s' os t) = active_connections s + int (length (filter (active t) cs)) \<and>
    to_srtla (s' os t) = to_srtla s @ concat (map (upkeep t (pending_reg2_conn s) (srtla_id s)) cs)"
  using assms(1,2) unfolding s'_def
proof (induction cs arbitrary: s)
  case (Cons c cs)
  have c: "get_link (cptr c) s = Some c" using Cons.prems(2) by simp
  define s1 where "s1 = housekeep_link os t (cptr c) s"
  note one = housekeep_one [OF c, where os = os and t = t, folded s1_def]
  have "\<forall>d\<in>set cs. get_link (cptr d) s1 = Some d" using one(4) Cons.prems by (auto simp: image_iff)
  moreover have "pending_reg2_conn s1 = pending_reg2_conn s" "srtla_id s1 = srtla_id s"
    using one(1) by (simp_all add: session_def)
  ultimately show ?case using Cons.IH [of s1] Cons.prems(1) one by (simp add: s1_def [symmetric])
qed simp

text \<open>C14. The housekeeping of the sender, when it is due. It counts as active exactly the open links that
  were heard from in the last four seconds, and sends in the order of the links: a registration on
  each that timed out (a REG2, or a REG1 on the one link a group registration is pending on), a
  keepalive on each active one that was idle, and nothing on the others. It ends the program only when no
  link is active, more than ten seconds (in 64-bit arithmetic) after none was for the first time, and only if the receiver was reached before
  or there is no other address to try.\<close>

theorem housekeeping_outcome:
  assumes wf: "wf_sender s" and ms: "get_ms (so_clock os (snd_tick s)) = Some ms" "last_ran s + 1000 \<le> ms"
  defines "t \<equiv> uint (ms div 1000)"
  defines "pending \<equiv> if pending_reg_timeout s < t then None else pending_reg2_conn s"
  shows "case connection_housekeeping os s of
      Inr s' \<Rightarrow> active_connections s' = int (length (filter (active t) (links s))) \<and> last_ran s' = ms \<and>
        to_srtla s' = to_srtla s @ concat (map (upkeep t pending (srtla_id s)) (links s)) \<and>
        (active_connections s' > 0 \<longrightarrow> all_failed_at s' = 0)
    | Inl e \<Rightarrow> e = Exit_Failure \<and> filter (active t) (links s) = [] \<and>
        (if all_failed_at s = 0 then ms else all_failed_at s) + 10000 < ms \<and> (has_connected s \<or> tl (addrs s) = [])"
proof -
  define s1 where "s1 = (snd_called s)\<lparr>active_connections := 0\<rparr>"
  define s2 where "s2 = (if pending_reg2_conn s1 \<noteq> None \<and> t > pending_reg_timeout s1
      then s1\<lparr>pending_reg2_conn := None\<rparr> else s1)"
  define s3 where "s3 = housekeep_links os t (map cptr (links s2)) s2"
  have s2: "links s2 = links s" "pending_reg2_conn s2 = pending" "srtla_id s2 = srtla_id s" "active_connections s2 = 0"
    "to_srtla s2 = to_srtla s" "all_failed_at s2 = all_failed_at s" "has_connected s2 = has_connected s" "addrs s2 = addrs s"
    by (auto simp: s2_def s1_def pending_def snd_called_def to_srtla_def)
  have "\<forall>c\<in>set (links s). get_link (cptr c) s2 = Some c"
    using get_link_in [OF wf] by (simp add: get_link_def s2(1))
  then have s3: "session s3 = session s2" "active_connections s3 = int (length (filter (active t) (links s)))"
    "to_srtla s3 = to_srtla s @ concat (map (upkeep t pending (srtla_id s)) (links s))"
    using housekeep_all [of "links s" s2 os t] wf by (simp_all add: s3_def s2 wf_sender_def)
  have "\<not> last_ran (snd_called s) + HOUSEKEEPING_INT > ms" using ms(2) by (simp add: snd_called_def HOUSEKEEPING_INT_def not_less)
  then have res: "connection_housekeeping os s = (case check_all_failed ms s3 of Inl e \<Rightarrow> Inl e | Inr s \<Rightarrow> Inr (s\<lparr>last_ran := ms\<rparr>))"
    unfolding connection_housekeeping_def ms(1) option.case Let_def t_def [symmetric] s1_def [symmetric] s2_def [symmetric]
      s3_def [symmetric] by simp
  have f: "all_failed_at s3 = all_failed_at s" "has_connected s3 = has_connected s" "addrs s3 = addrs s"
    using s3(1) s2 by (simp_all add: session_def)
  have u: "to_srtla (s\<lparr>last_ran := v\<rparr>) = to_srtla s" "to_srtla (s\<lparr>all_failed_at := v\<rparr>) = to_srtla s"
    "to_srtla (s\<lparr>addrs := as\<rparr>) = to_srtla s" "to_srtla (s\<lparr>srtla_addr := a\<rparr>) = to_srtla s" for s v as a
    by (simp_all add: to_srtla_def)
  show ?thesis
    unfolding res check_all_failed_def Let_def GLOBAL_TIMEOUT_def
    using s3(2,3) f by (auto simp: u set_srtla_addr_def split: list.split)
qed

end
