(* ===== verification/End_To_End.thy ===== *)
theory End_To_End
  imports Bonding Sender_Upkeep
begin

text \<open>
  A stream between an SRT caller and an SRT server through both programs, once the links are bonded: the packets
  of the caller on their way to the server, the answers of the server on their way back, and the
  keepalives between the programs.
\<close>

section \<open>From the caller to the server\<close>

text \<open>The SRT caller hands the sender a packet at a given time, and the datagram leaves in full.\<close>

definition offers :: "sender_os \<Rightarrow> byte list \<Rightarrow> sockaddr_storage \<Rightarrow> time_t \<Rightarrow> sender \<Rightarrow> sender" where
  "offers os data from t s =
     snd_handle_srt_data (os\<lparr>so_recvfrom := \<lambda>t fd. Some (data, from), so_clock := \<lambda>_. Some (t, 0),
       so_sendto := \<lambda>t fd n b. n\<rparr>) (listenfd s) s"

text \<open>What arrives at the receiver, when it sees the socket \<open>fd\<close> of the sender at the address \<open>seen fd\<close>.\<close>

fun arrivals :: "(int \<Rightarrow> sockaddr_storage) \<Rightarrow> sender_effect list \<Rightarrow> (sockaddr_storage \<times> byte list) list" where
  "arrivals seen [] = []"
| "arrivals seen (To_Srtla fd b # es) = (seen fd, b) # arrivals seen es"
| "arrivals seen (e # es) = arrivals seen es"

text \<open>Packets of the caller, each with the times at which the programs handle it.\<close>

fun stream :: "sender_os \<Rightarrow> os \<Rightarrow> (int \<Rightarrow> sockaddr_storage) \<Rightarrow> sockaddr_storage \<Rightarrow>
    (byte list \<times> time_t \<times> time_t) list \<Rightarrow> sender \<Rightarrow> receiver \<Rightarrow> failure + sender \<times> receiver" where
  "stream sos os seen from [] s r = Inr (s, r)"
| "stream sos os seen from ((data, t, now) # ps) s r =
     (let s' = offers sos data from t s
      in case process_batch os now (arrivals seen (drop (length (snd_out s)) (snd_out s'))) r of
           Inl e \<Rightarrow> Inl e
         | Inr r \<Rightarrow> stream sos os seen from ps s' r)"

fun to_server :: "int \<Rightarrow> effect list \<Rightarrow> byte list list" where
  "to_server fd [] = []"
| "to_server fd (Sent_Srt fd' b # es) = (if fd' = fd then b # to_server fd es else to_server fd es)"
| "to_server fd (e # es) = to_server fd es"

lemma to_server_append [simp]: "to_server fd (es @ fs) = to_server fd es @ to_server fd fs"
  by (induction fd es rule: to_server.induct) simp_all

text \<open>The group \<open>p\<close> has the socket \<open>fd\<close> to the SRT server, and the addresses are connections of it.\<close>

definition carries :: "nat \<Rightarrow> int \<Rightarrow> sockaddr_storage set \<Rightarrow> receiver \<Rightarrow> bool" where
  "carries p fd as r \<longleftrightarrow> wf_receiver r \<and>
     (\<exists>g. get_group p r = Some g \<and> srt_sock g = fd \<and> list_all counting (conns g) \<and>
        (\<forall>a\<in>as. addr_key a \<in> (addr_key \<circ> address) ` set (conns g)))"

lemma packet_carried:
  assumes "carries p fd as r" "a \<in> as" "0 \<le> fd" and data: "plain_data buf" "length buf \<le> MTU"
    and sent: "\<And>t b. os_send os t fd b = (int (length b), err)"
  obtains r' where "process_batch os now [(a, buf)] r = Inr r'" "carries p fd as r'"
    "to_server fd (out r') = to_server fd (out r) @ [buf]"
proof -
  define r1 where "r1 = counted BYTES_RECEIVED (of_nat (length buf)) (counted PACKETS_RECEIVED 1 r)"
  obtain g where wf: "wf_receiver r" and g: "get_group p r = Some g" "srt_sock g = fd" "list_all counting (conns g)"
    and as: "\<forall>a\<in>as. addr_key a \<in> (addr_key \<circ> address) ` set (conns g)"
    using assms(1) by (auto simp: carries_def)
  have gs: "g \<in> set (groups r)" "gptr g = p" using get_group_Some [OF g(1)] by simp_all
  have "addr_key a \<in> owned g" using as assms(2) by (auto simp: owned_def)
  then have found: "find_by_address a (groups r) = Some (p, find_conn a (conns g))"
    using wf find_by_address_owned [OF _ gs(1)] gs(2) by (auto simp: wf_receiver_def)
  obtain i where i: "find_conn a (conns g) = Some i"
    using as assms(2) find_conn_None [of a "conns g"] by fastforce
  define c where "c = conns g ! i"
  have c: "get_conn p i r1 = Some c" "counting c"
    using find_conn_Some [OF i] g by (simp_all add: r1_def get_conn_def c_def list_all_length)
  obtain r' g' c' where r': "process_single_packet os buf a now r1 = Inr r'"
    "out r' = out r1 @ (if 0 \<le> get_srt_sn buf (int (length buf)) \<and> Suc (length (noted c)) = RECV_ACK_INT
        then [Sent_To (address c) (srtla_ack_pkt (noted c @ [word_of_int (get_srt_sn buf (int (length buf)))]))] else []) @
       [Sent_Srt (srt_sock g) buf]"
    "get_group p r' = Some g'" "srt_sock g' = srt_sock g" "counting c'" "address c' = address c" "conns g' = (conns g)[i := c']"
    by (rule data_packet_step [OF data(1) _ _ _ c, where addr = a and g = g and os = os and err = err and ts = now])
      (use found i g assms(3) sent in \<open>simp_all add: r1_def\<close>)
  have "refines r1 r'" using r'(1) by (rule refines_process_single_packet)
  then have "wf_receiver r'" using wf by (auto simp: r1_def dest: refines_wf)
  moreover have "list_all counting (conns g')" using g(3) r'(5,7) by (auto simp: list_all_iff dest!: set_update_subset_insert [THEN subsetD])
  moreover have "map address (conns g') = map address (conns g)"
    using find_conn_Some [OF i] r'(6,7) by (simp add: map_update c_def list_update_same_conv)
  then have "(addr_key \<circ> address) ` set (conns g') = (addr_key \<circ> address) ` set (conns g)"
    by (metis list.set_map list.map_comp)
  ultimately have "carries p fd as r'" using r'(3,4) g(2) as by (simp add: carries_def)
  moreover have "process_batch os now [(a, buf)] r = Inr r'"
    using r'(1) data by (auto simp: r1_def plain_data_def Let_def SRT_MIN_LEN_def)
  moreover have "to_server fd (out r') = to_server fd (out r) @ [buf]"
    by (simp add: r'(2) g(2) r1_def)
  ultimately show thesis using that by blast
qed

text \<open>The sockets of the links the sender may pick at a time.\<close>

definition usable :: "time_t \<Rightarrow> sender \<Rightarrow> int list" where
  "usable t s = map c_fd (filter (\<lambda>c. \<not> link_timed_out c t) (links s))"

lemma packet_offered:
  assumes wf: "wf_sender s" and len: "length data \<le> MTU" and some: "usable t s \<noteq> []"
  obtains fd where "fd \<in> set (usable t s)" "snd_out (offers sos data from t s) = snd_out s @ [To_Srtla fd data]"
    "wf_sender (offers sos data from t s)" "\<And>u. usable u (offers sos data from t s) = usable u s"
proof -
  define os where "os = sos\<lparr>so_recvfrom := \<lambda>t fd. Some (data, from), so_clock := \<lambda>_. Some (t, 0),
      so_sendto := \<lambda>t fd n b. n\<rparr>"
  have os: "so_recvfrom os (snd_tick s) (listenfd s) = Some (data, from)"
    "get_seconds (so_clock os (Suc (snd_tick s))) = Some t" "\<And>k fd n b. so_sendto os k fd n b = n"
    by (simp_all add: os_def get_seconds_def)
  have o: "offers sos data from t s = snd_handle_srt_data os (listenfd s) s" by (simp add: offers_def os_def)
  have wf': "wf_sender (offers sos data from t s)" unfolding o using wf by (rule wf_handle_srt_data)
  show thesis
  proof (cases rule: caller_packet_cases [OF wf os(1) len os(2), case_names dropped sent])
    case dropped
    with some show thesis by (simp add: usable_def)
  next
    case (sent xs c ys)
    then have "c_fd c \<in> set (usable t s)" by (auto simp: usable_def best_def)
    moreover have "usable u (offers sos data from t s) = usable u s" for u
      using sent(1,4) by (simp add: usable_def o os(3) link_timed_out_def reg_pkt_def)
    ultimately show thesis using sent(3) wf' by (intro that) (simp_all add: o)
  qed
qed

section \<open>From the server to the caller\<close>

lemma ack_heard:
  fixes s :: sender
  assumes "be16 buf 0 = SRT_TYPE_ACK" "20 \<le> length buf" "length buf \<le> MTU"
  shows "\<exists>s'. hears os buf ts c s = Inr s' \<and> snd_out s' = snd_out s @ [To_Srt (srt_caller s) buf] \<and>
    srt_caller s' = srt_caller s \<and>
    links s' = map (\<lambda>d. conn_register_srt_ack (sint (be32 buf 16)) (if cptr d = cptr c then d\<lparr>c_last_rcvd := ts\<rparr> else d)) (links s)"
proof -
  have "SRT_TYPE_ACK \<notin> {SRTLA_TYPE_REG_NGP, SRTLA_TYPE_REG2}" by (simp add: const_defs)
  then show ?thesis
    using assms by (simp add: hears_eq dispatch_srtla_def Let_def relay_to_srt_def register_srt_ack_def be_append_left
        upd_link_def snd_called_def snd_emit_def comp_def)
qed

lemma ack_heard_each:
  assumes "be16 buf 0 = SRT_TYPE_ACK" "20 \<le> length buf" "length buf \<le> MTU" "0 \<le> sint (be32 buf 16)"
    and "list_all wf_link (links s)"
  defines "ack \<equiv> sint (be32 buf 16)"
  shows "\<exists>s'. hear_each os buf ts cs s = Inr s' \<and>
    snd_out s' = snd_out s @ replicate (length cs) (To_Srt (srt_caller s) buf) \<and>
    links s' = map (\<lambda>d. if cs = [] then d
      else conn_register_srt_ack ack (if cptr d \<in> cptr ` set cs then d\<lparr>c_last_rcvd := ts\<rparr> else d)) (links s)"
  using assms(5)
proof (induction cs arbitrary: s)
  case (Cons c cs)
  let ?f = "\<lambda>c d. conn_register_srt_ack ack (if cptr d = cptr c then d\<lparr>c_last_rcvd := ts\<rparr> else d)"
  obtain s1 where s1: "hears os buf ts c s = Inr s1" "snd_out s1 = snd_out s @ [To_Srt (srt_caller s) buf]"
    "srt_caller s1 = srt_caller s" "links s1 = map (?f c) (links s)"
    using ack_heard [OF assms(1-3)] unfolding ack_def by blast
  have late: "conn_register_srt_ack ack (d\<lparr>c_last_rcvd := ts\<rparr>) = (conn_register_srt_ack ack d)\<lparr>c_last_rcvd := ts\<rparr>"
    "cptr (conn_register_srt_ack ack d) = cptr d" for d
    by (simp_all add: conn_register_srt_ack_def split: prod.split)
  have "list_all wf_link (links s1)"
    using Cons.prems srt_ack.keeps_link heard.keeps_link by (simp add: s1(4) list_all_iff)
  from Cons.IH [OF this] obtain s' where s': "hear_each os buf ts cs s1 = Inr s'"
    "snd_out s' = snd_out s1 @ replicate (length cs) (To_Srt (srt_caller s1) buf)"
    "links s' = map (\<lambda>d. if cs = [] then d
      else conn_register_srt_ack ack (if cptr d \<in> cptr ` set cs then d\<lparr>c_last_rcvd := ts\<rparr> else d)) (links s1)"
    by blast
  have "links s' = map (\<lambda>d. conn_register_srt_ack ack (if cptr d \<in> cptr ` set (c # cs) then d\<lparr>c_last_rcvd := ts\<rparr> else d)) (links s)"
    using Cons.prems assms(4) by (auto simp: s'(3) s1(4) late list_all_iff ack_def [symmetric] srt_ack_again)
  with s1 s' show ?case by simp
qed simp

lemma other_heard:
  fixes s :: sender
  assumes "2 \<le> length buf" "length buf \<le> MTU"
    and "be16 buf 0 \<notin> {SRT_TYPE_ACK, SRT_TYPE_NAK, SRTLA_TYPE_ACK, SRTLA_TYPE_KEEPALIVE, SRTLA_TYPE_REG2, SRTLA_TYPE_REG3, SRTLA_TYPE_REG_NGP}"
  shows "\<exists>s'. hears os buf ts c s = Inr s' \<and> snd_out s' = snd_out s @ [To_Srt (srt_caller s) buf] \<and>
    links s' = map (\<lambda>d. if cptr d = cptr c then d\<lparr>c_last_rcvd := ts\<rparr> else d) (links s)"
  using assms by (simp add: hears_eq dispatch_srtla_def Let_def relay_to_srt_def upd_link_def snd_called_def snd_emit_def)

lemma pad32_type: "2 \<le> length buf \<Longrightarrow> be16 (pad32 buf) 0 = be16 buf 0"
  by (simp add: pad32_def be_append_left)

section \<open>Keepalives\<close>

lemma keepalive_heard:
  fixes s :: sender
  shows "\<exists>s'. hears os (pad32 (put_be16 SRTLA_TYPE_KEEPALIVE)) ts c s = Inr s' \<and> snd_out s' = snd_out s \<and>
    links s' = map (\<lambda>d. if cptr d = cptr c then d\<lparr>c_last_rcvd := ts\<rparr> else d) (links s)"
proof -
  let ?d = "pad32 (put_be16 SRTLA_TYPE_KEEPALIVE)"
  have t: "be16 ?d 0 = SRTLA_TYPE_KEEPALIVE" "2 \<le> length ?d" "length ?d \<le> MTU"
    by (simp_all add: pad32_def be16_put_be16 MTU_def)
  have "SRTLA_TYPE_KEEPALIVE \<notin> {SRTLA_TYPE_REG_NGP, SRTLA_TYPE_REG2, SRT_TYPE_ACK, SRT_TYPE_NAK, SRTLA_TYPE_ACK}"
    by (simp add: const_defs)
  then show ?thesis
    by (simp add: hears_eq [OF t(2,3)] t(1) dispatch_srtla_def Let_def upd_link_def snd_called_def)
qed

end
