(* ===== verification/Sender_Counters.thy ===== *)
theory Sender_Counters
  imports Sender_Links
begin

text \<open>
  The counters of the sender. Windows and packets in flight are \<open>int\<close>s in the source and integers in the model;
  the bounds proved here hold in every run, and depend only on how many iterations the sender goes without an
  acknowledgement of the SRT server.
\<close>

section \<open>Properties of single links\<close>

lemma register_links [simp]:
  "links (handle_ngp os c ts s) = links s" "links (handle_reg2 os c buf ts s) = links s"
  by (simp_all add: handle_ngp_def handle_reg2_def Let_def split_def broadcast_reg2_frame)

text \<open>A property of links that every update keeps but, perhaps, the registration of a packet.\<close>

locale link_property =
  fixes P :: "conn_t \<Rightarrow> bool"
  assumes fresh: "P (new_link p src)"
    and nak: "P c \<Longrightarrow> P (nak_link i c)"
    and ack: "P c \<Longrightarrow> P (grow_link (ack_link i c))" "P c \<Longrightarrow> P (grow_link c)"
    and srt_ack: "P c \<Longrightarrow> P (conn_register_srt_ack a c)"
    and reset: "P c \<Longrightarrow> P (reset_link c)"
    and stamp: "P (c\<lparr>c_last_rcvd := t\<rparr>) = P c" "P (c\<lparr>c_last_sent := t\<rparr>) = P c"
    and mark: "P (c\<lparr>c_fd := fd\<rparr>) = P c" "P (c\<lparr>c_removed := r\<rparr>) = P c"
begin

lemma upd: "list_all P (links s) \<Longrightarrow> (\<And>c. P c \<Longrightarrow> P (f c)) \<Longrightarrow> list_all P (links (upd_link p f s))"
  by (auto simp: upd_link_def list_all_iff)

lemma naks: "list_all P cs \<Longrightarrow> list_all P (register_nak packet cs)"
  by (induction cs) (auto simp: nak split: option.split)

lemma nak_ranges: "list_all P cs \<Longrightarrow> nak_range lost last_id cs = Inr ds \<Longrightarrow> list_all P ds"
proof (induction lost last_id cs rule: nak_range.induct)
  case (1 lost last_id cs)
  then show ?case by (auto simp: nak_range.simps [of lost] naks split: if_splits)
qed

lemma nak_list: "list_all P cs \<Longrightarrow> nak_ids fuel buf words i cs = Inr ds \<Longrightarrow> list_all P ds"
  by (induction fuel buf words i cs rule: nak_ids.induct)
    (auto simp: naks dest: nak_ranges split: if_splits option.splits sum.splits)

lemma acks: "list_all P cs \<Longrightarrow> list_all P (register_srtla_ack a found cs)"
  by (induction cs arbitrary: found) (auto simp: ack split: option.split)

lemma ack_list: "list_all P cs \<Longrightarrow> list_all P (srtla_acks buf is cs)"
  by (induction buf "is" cs rule: srtla_acks.induct) (simp_all add: acks)

lemma srt_acks: "list_all P cs \<Longrightarrow> list_all P (register_srt_ack a cs)"
  by (simp add: register_srt_ack_def list_all_iff srt_ack)

lemma dispatched:
  "list_all P (links s) \<Longrightarrow> dispatch_srtla data buf typ s = Inr s' \<Longrightarrow> list_all P (links s')"
  by (auto simp: dispatch_srtla_def relay_to_srt_def srt_acks ack_list dest: nak_list split: if_splits sum.splits)

lemma heard_from: "list_all P (links s) \<Longrightarrow> handle_srtla_data os c s = Inr s' \<Longrightarrow> list_all P (links s')"
  by (auto simp: handle_srtla_data_def Let_def stamp upd elim!: dispatched [rotated] split: option.splits if_splits)

lemma all_heard: "list_all P (links s) \<Longrightarrow> handle_links os ready ps s = Inr s' \<Longrightarrow> list_all P (links s')"
  by (induction os ready ps s rule: handle_links.induct)
    (auto dest: heard_from split: option.splits if_splits sum.splits)

lemma lines_added: "list_all P (links s) \<Longrightarrow> list_all P (links (snd (add_lines os ls n s)))"
  by (induction os ls n s rule: add_lines.induct) (auto simp: fresh mark upd split: option.split)

lemma removed: "list_all P (links s) \<Longrightarrow> list_all P (links (drop_removed cs s))"
  by (induction cs s rule: drop_removed.induct) (auto simp: Let_def list_all_iff)

lemma updated: "list_all P (links s) \<Longrightarrow> update_conns os s = Inr s' \<Longrightarrow> list_all P (links s')"
proof -
  assume "list_all P (links s)"
  then have "list_all P (links (snd_called (s\<lparr>links := map (\<lambda>c. c\<lparr>c_removed := True\<rparr>) (links s)\<rparr>)))"
    by (simp add: list_all_iff mark)
  from removed [OF lines_added [OF this]] show "update_conns os s = Inr s' \<Longrightarrow> list_all P (links s')"
    by (auto simp: update_conns_def setup_conns_def split: option.splits sum.splits prod.splits) (metis snd_conv)
qed

lemma opened:
  assumes "list_all P (links s)"
  shows "list_all P (links (snd (open_socket os p s)))"
proof -
  define s1 where "s1 = (case get_link p s of
      Some c \<Rightarrow> if c_fd c \<ge> 0 then upd_link p (\<lambda>c. c\<lparr>c_fd := -1\<rparr>)
                          (snd_close (c_fd c) (snd (remove_active_fd (c_fd c) s))) else s
    | None \<Rightarrow> s)"
  have "list_all P (links s1)" using assms by (auto simp: s1_def mark intro: upd split: option.split)
  then show ?thesis
    unfolding open_socket_def s1_def [symmetric] Let_def by (auto simp: mark intro!: upd)
qed

lemma housekept: "list_all P (links s) \<Longrightarrow> list_all P (links (housekeep_links os t ps s))"
proof (induction os t ps s rule: housekeep_links.induct)
  case (2 os t p ps s)
  have "list_all P (links (housekeep_link os t p s))"
    using "2.prems" by (auto simp: housekeep_link_def Let_def snd_keepalive_def opened upd reset split: option.split)
  with 2 show ?case by simp
qed simp

lemma all_failed: "list_all P (links s) \<Longrightarrow> check_all_failed ms s = Inr s' \<Longrightarrow> list_all P (links s')"
  by (auto simp: check_all_failed_def Let_def set_srtla_addr_def split: if_splits list.splits)

lemma housekeeping:
  assumes "list_all P (links s)" and "connection_housekeeping os s = Inr s'"
  shows "list_all P (links s')"
proof (cases "get_ms (so_clock os (snd_tick s))")
  case None
  with assms show ?thesis by (auto simp: connection_housekeeping_def)
next
  case (Some ms)
  define t where "t = uint (ms div 1000)"
  define s1 where "s1 = (snd_called s)\<lparr>active_connections := 0\<rparr>"
  define s2 where "s2 = (if pending_reg2_conn s1 \<noteq> None \<and> t > pending_reg_timeout s1
      then s1\<lparr>pending_reg2_conn := None\<rparr> else s1)"
  have "list_all P (links s2)" using assms(1) by (simp add: s2_def s1_def)
  note kept = all_failed [OF housekept [OF this]]
  have "s' = snd_called s \<or> (\<exists>s3. check_all_failed ms (housekeep_links os t (map cptr (links s2)) s2) = Inr s3 \<and>
      s' = s3\<lparr>last_ran := ms\<rparr>)"
    using assms(2) unfolding connection_housekeeping_def Some option.case Let_def
      t_def [symmetric] s1_def [symmetric] s2_def [symmetric]
    by (auto split: if_splits sum.splits)
  with assms(1) kept show ?thesis by auto
qed

lemma opened_all: "list_all P (links s) \<Longrightarrow> list_all P (links (snd (open_conns os ps n s)))"
  by (induction os ps n s rule: open_conns.induct) (auto simp: split_def Let_def opened)

lemma started:
  assumes "sender_start os = Inr s"
  shows "list_all P (links s)"
proof -
  obtain n s1 where s1: "setup_conns os idle_sender = Inr (n, s1)"
    using assms by (auto simp: sender_start_def split: sum.splits)
  then obtain ls where "add_lines os ls 0 (snd_called idle_sender) = (n, s1)"
    by (auto simp: setup_conns_def split: option.splits)
  then have "list_all P (links s1)"
    using lines_added [of "snd_called idle_sender" os ls 0] by (simp add: idle_sender_def)
  then have l2: "list_all P (links (snd (snd_random_bytes os k s1)))" for k
    by (simp add: snd_random_bytes_def split: option.split)
  have l3: "list_all P (links s3)" if "open_listener os s2 = Inr s3" "list_all P (links s2)" for s2 s3
    using that by (auto simp: open_listener_def Let_def split: if_splits)
  obtain r s2 s3 k s4 where "snd_random_bytes os (SRTLA_ID_LEN div 2) s1 = (Some r, s2)"
    "open_listener os (s2\<lparr>srtla_id := r @ drop (SRTLA_ID_LEN div 2) (srtla_id s2)\<rparr>) = Inr s3"
    "open_conns os (map cptr (links s3)) 0 s3 = (k, s4)" "links s = links s4"
    using assms s1 by (auto simp: sender_start_def set_srtla_addr_def split: if_splits option.splits sum.splits prod.splits)
  then show ?thesis
    using l2 [of "SRTLA_ID_LEN div 2"] l3 opened_all [of s3 os "map cptr (links s3)" 0] by simp
qed

end

text \<open>Two such properties, where a packet may weaken the first to the second.\<close>

locale packet_property = before: link_property P + after: link_property Q for P Q +
  assumes weaker: "P c \<Longrightarrow> Q c"
    and packet: "P c \<Longrightarrow> Q (reg_pkt packet c)"
begin

lemma weaken: "list_all P cs \<Longrightarrow> list_all Q cs"
  by (auto simp: list_all_iff weaker)

lemma taken:
  assumes "list_all P (links s)"
  shows "list_all Q (links (snd_handle_srt_data os fd s))"
proof -
  obtain n buf s1 where r: "recv_caller os fd s = (n, buf, s1)" by (cases "recv_caller os fd s") auto
  with assms have s1: "list_all P (links s1)" by (auto simp: recv_caller_def split: option.splits)
  obtain co s2 where s2: "select_conn os s1 = (co, s2)" by fastforce
  with s1 have p2: "list_all P (links s2)"
    by (auto simp: select_conn_def before.stamp intro: before.upd split: option.splits)
  have packet: "list_all Q (links (upd_link p (reg_pkt sn) s'))" if "links s' = links s2" for p sn s'
    using p2 that by (auto simp: upd_link_def list_all_iff packet weaker)
  have "list_all Q (links (upd_link p (\<lambda>c. c\<lparr>c_last_rcvd := 1\<rparr>) s'))" if "links s' = links s2" for p s'
    using weaken [OF p2] that by (auto simp: after.stamp intro: after.upd)
  with packet weaken [OF p2] show ?thesis
    by (auto simp: snd_handle_srt_data_def r s2 Let_def split_def split: option.split)
qed

lemma served:
  assumes "list_all P (links s)" and "serve_ready os s = Inr s'"
  shows "list_all Q (links s')"
proof -
  have s: "list_all P (links (snd_called s))" using assms(1) by simp
  have "s' = snd_called s \<or> (\<exists>ready ps. handle_links os ready ps (snd_called s) = Inr s') \<or>
      (\<exists>ready ps fd. handle_links os ready ps (snd_handle_srt_data os fd (snd_called s)) = Inr s')"
    using assms(2) by (auto simp: serve_ready_def Let_def split: if_splits)
  with s weaken [OF s] taken [OF s] after.all_heard show ?thesis by blast
qed

lemma iterated:
  assumes "list_all P (links s)" and "sender_iteration os s = Inr s'"
  shows "list_all Q (links s')"
proof -
  obtain s1 s2 where s1: "s1 = s \<or> (\<exists>s0. update_conns os s = Inr s0 \<and> s1 = s0\<lparr>do_update_conns := False\<rparr>)"
    "connection_housekeeping os s1 = Inr s2" "serve_ready os s2 = Inr s'"
    using assms(2) by (auto simp: sender_iteration_def split: if_splits sum.splits)
  have "list_all P (links s1)" using s1(1) assms(1) before.updated by auto
  then have "list_all P (links s2)" using s1(2) by (rule before.housekeeping)
  then show ?thesis using s1(3) by (rule served)
qed

end

section \<open>Acknowledgements of the server\<close>

text \<open>What the sender has relayed to the SRT caller; an acknowledgement among it was first taken in.\<close>

definition to_srt :: "sender \<Rightarrow> byte list list" where
  "to_srt s = concat (map (\<lambda>e. case e of To_Srt a d \<Rightarrow> [d] | _ \<Rightarrow> []) (snd_out s))"

abbreviation has_ack :: "byte list list \<Rightarrow> bool" where
  "has_ack ds \<equiv> list_ex (\<lambda>d. is_srt_ack d (int (length d))) ds"

definition relays_ack :: "sender \<Rightarrow> sender \<Rightarrow> bool" where
  "relays_ack s s' \<longleftrightarrow> has_ack (drop (length (to_srt s)) (to_srt s'))"

lemma to_srt_frame [simp]:
  "to_srt (snd_called s) = to_srt s" "to_srt (upd_link p f s) = to_srt s"
  "to_srt (snd_emit (To_Srtla fd b) s) = to_srt s" "to_srt (snd_emit (Snd_Opened fd) s) = to_srt s"
  "to_srt (snd_close fd s) = to_srt s" "to_srt (snd (add_active_fd fd s)) = to_srt s"
  "to_srt (snd (remove_active_fd fd s)) = to_srt s" "to_srt (set_srtla_addr a s) = to_srt s"
  "to_srt (snd (send_srtla os fd n b s)) = to_srt s" "to_srt (snd (send_reg1 os c s)) = to_srt s"
  "to_srt (snd (send_reg2 os c s)) = to_srt s" "to_srt (snd_keepalive os c s) = to_srt s"
  "to_srt (relay_to_srt d s) = to_srt s @ [d]"
  by (simp_all add: to_srt_def snd_called_def upd_link_def snd_emit_def snd_close_def add_active_fd_def remove_active_fd_def
      set_srtla_addr_def send_srtla_def send_reg1_def send_reg2_def snd_keepalive_def relay_to_srt_def Let_def)

lemma links_relay [simp]: "links (relay_to_srt d s) = links s"
  by (simp add: relay_to_srt_def)

lemma to_srt_fields [simp]:
  "to_srt (s\<lparr>links := cs\<rparr>) = to_srt s" "to_srt (s\<lparr>snd_fresh := n\<rparr>) = to_srt s" "to_srt (s\<lparr>srt_caller := a\<rparr>) = to_srt s"
  "to_srt (s\<lparr>active_connections := k\<rparr>) = to_srt s" "to_srt (s\<lparr>has_connected := b\<rparr>) = to_srt s"
  "to_srt (s\<lparr>pending_reg_timeout := t\<rparr>) = to_srt s" "to_srt (s\<lparr>pending_reg2_conn := p\<rparr>) = to_srt s"
  "to_srt (s\<lparr>all_failed_at := ms\<rparr>) = to_srt s" "to_srt (s\<lparr>last_ran := ms\<rparr>) = to_srt s"
  "to_srt (s\<lparr>addrs := as\<rparr>) = to_srt s" "to_srt (s\<lparr>do_update_conns := b\<rparr>) = to_srt s" "to_srt (s\<lparr>srtla_id := i\<rparr>) = to_srt s"
  by (simp_all add: to_srt_def)

lemma to_srt_register [simp]:
  "to_srt (handle_ngp os c ts s) = to_srt s" "to_srt (handle_reg2 os c buf ts s) = to_srt s"
proof -
  have "to_srt (broadcast_reg2 os cs s) = to_srt s" for cs s by (induction cs arbitrary: s) simp_all
  then show "to_srt (handle_reg2 os c buf ts s) = to_srt s" by (simp add: handle_reg2_def Let_def)
  show "to_srt (handle_ngp os c ts s) = to_srt s" by (simp add: handle_ngp_def split_def)
qed

lemma to_srt_update: "update_conns os s = Inr s' \<Longrightarrow> to_srt s' = to_srt s"
proof -
  have "to_srt (snd (add_lines os ls n s)) = to_srt s" for ls n s
    by (induction os ls n s rule: add_lines.induct) (simp_all split: option.split)
  moreover have "to_srt (drop_removed cs s) = to_srt s" for cs s
    by (induction cs s rule: drop_removed.induct) (simp_all add: Let_def)
  ultimately show "update_conns os s = Inr s' \<Longrightarrow> to_srt s' = to_srt s"
    by (auto simp: update_conns_def setup_conns_def split: option.splits sum.splits prod.splits)
      (metis snd_conv to_srt_frame(1) to_srt_fields(1))
qed

lemma to_srt_housekeeping: "connection_housekeeping os s = Inr s' \<Longrightarrow> to_srt s' = to_srt s"
proof -
  have "to_srt (housekeep_link os t p s) = to_srt s" for t p s
    by (simp add: housekeep_link_def open_socket_def Let_def split: option.split)
  then have "to_srt (housekeep_links os t ps s) = to_srt s" for t ps s
    by (induction ps arbitrary: s) simp_all
  moreover have "check_all_failed ms s = Inr s' \<Longrightarrow> to_srt s' = to_srt s" for ms s s'
    by (auto simp: check_all_failed_def Let_def split: if_splits list.splits)
  ultimately show "connection_housekeeping os s = Inr s' \<Longrightarrow> to_srt s' = to_srt s"
    by (auto simp: connection_housekeeping_def Let_def split: option.splits if_splits sum.splits)
qed

lemma to_srt_taken: "to_srt (snd_handle_srt_data os fd s) = to_srt s"
proof -
  obtain n buf s1 where r: "recv_caller os fd s = (n, buf, s1)" by (cases "recv_caller os fd s") auto
  then have s1: "to_srt s1 = to_srt s" by (auto simp: recv_caller_def split: option.splits)
  obtain co s2 where s2: "select_conn os s1 = (co, s2)" by fastforce
  have "to_srt (snd (select_conn os s1)) = to_srt s1" by (simp add: select_conn_def split: option.split)
  with s1 s2 have "to_srt s2 = to_srt s" by simp
  then show ?thesis by (simp add: snd_handle_srt_data_def r s2 Let_def split_def split: option.split)
qed

lemma clear_acked_bound: "snd (clear_acked fuel log stop i ack count) \<le> count + int fuel"
proof (induction fuel log stop i ack count rule: clear_acked.induct)
  case (2 fuel log stop i ack count)
  then show ?case by (auto simp: algebra_simps)
qed simp

lemma srt_ack_in_flight:
  "in_flight_pkts (conn_register_srt_ack a c) \<le> 256" "c_window (conn_register_srt_ack a c) = c_window c"
  using clear_acked_bound [of PKT_LOG_SZ "pkt_log c" "pkt_idx c" "get_pkt_idx (pkt_idx c) (-1)" a 0]
  by (auto simp: conn_register_srt_ack_def PKT_LOG_SZ_def split: prod.split)

definition settled :: "conn_t \<Rightarrow> bool" where
  "settled c \<longleftrightarrow> in_flight_pkts c \<le> 256"

interpretation settled: link_property settled
proof
  fix c :: conn_t and a i :: int
  assume c: "settled c"
  show "settled (conn_register_srt_ack a c)" using srt_ack_in_flight by (simp add: settled_def)
  show "settled (grow_link (ack_link i c))" "settled (grow_link c)"
    using c by (auto simp: settled_def grow_link_def ack_link_def Let_def)
qed (auto simp: settled_def new_link_def nak_link_def reset_link_def)

text \<open>A datagram of the receiver that makes the sender relay an acknowledgement settles every link.\<close>

lemma dispatch_settles:
  assumes "dispatch_srtla data buf (get_srt_type data (int (length data))) s = Inr s'"
  shows "\<exists>ds. to_srt s' = to_srt s @ ds \<and> (has_ack ds \<longrightarrow> list_all settled (links s'))"
proof -
  have "list_all settled (register_srt_ack a cs)" for a cs
    using srt_ack_in_flight by (simp add: register_srt_ack_def list_all_iff settled_def)
  then show ?thesis
    using assms by (auto simp: dispatch_srtla_def is_srt_ack_def split: if_splits sum.splits)
qed

lemma heard_settles:
  assumes "handle_srtla_data os c s = Inr s'"
  shows "\<exists>ds. to_srt s' = to_srt s @ ds \<and> (has_ack ds \<longrightarrow> list_all settled (links s'))"
proof -
  have same: "get_srt_type (d @ xs) (int (length d)) = get_srt_type d (int (length d))" for d xs
    by (simp add: get_srt_type_def be_append_left)
  show ?thesis
  proof (cases "so_recvfrom os (snd_tick s) (c_fd c)")
    case None
    with assms show ?thesis by (auto simp: handle_srtla_data_def)
  next
    case (Some p)
    define d where "d = take MTU (fst p)"
    define xs where "xs = drop (length d) (so_stack os (snd_tick s))"
    define ts where "ts = (case get_seconds (so_clock os (snd_tick (snd_called s))) of
        None \<Rightarrow> so_stale_time os (snd_tick (snd_called s)) | Some t \<Rightarrow> t)"
    define s1 where "s1 = upd_link (cptr c) (\<lambda>c. c\<lparr>c_last_rcvd := ts\<rparr>) (snd_called (snd_called s))"
    have "to_srt s1 = to_srt s" by (simp add: s1_def)
    moreover have "to_srt s' = to_srt s \<or> dispatch_srtla d (d @ xs) (get_srt_type (d @ xs) (int (length d))) s1 = Inr s'"
      using assms unfolding handle_srtla_data_def Some option.case Let_def case_prod_unfold
        d_def [symmetric] xs_def [symmetric] ts_def [symmetric] s1_def [symmetric]
      by (auto split: if_splits)
    ultimately show ?thesis using dispatch_settles [of d "d @ xs" s1 s'] by (auto simp: same)
  qed
qed

lemma all_heard_settles:
  assumes "handle_links os ready ps s = Inr s'"
  shows "\<exists>ds. to_srt s' = to_srt s @ ds \<and> (has_ack ds \<longrightarrow> list_all settled (links s'))"
  using assms
proof (induction os ready ps s rule: handle_links.induct)
  case (2 os ready p ps s)
  show ?case
  proof (cases "\<exists>c. get_link p s = Some c \<and> c_fd c \<ge> 0 \<and> c_fd c \<in> set ready")
    case False
    then have "handle_links os ready ps s = Inr s'" using "2.prems" by (auto split: option.splits if_splits)
    with 2 False show ?thesis by (auto split: option.splits)
  next
    case True
    then obtain c s1 where c: "get_link p s = Some c" "c_fd c \<ge> 0 \<and> c_fd c \<in> set ready" and s1: "handle_srtla_data os c s = Inr s1"
      and s': "handle_links os ready ps s1 = Inr s'"
      using "2.prems" by (auto split: sum.splits)
    obtain ds where ds: "to_srt s1 = to_srt s @ ds" "has_ack ds \<longrightarrow> list_all settled (links s1)"
      using heard_settles [OF s1] by blast
    obtain es where es: "to_srt s' = to_srt s1 @ es" "has_ack es \<longrightarrow> list_all settled (links s')"
      using "2.IH"(2) [OF c s1 s'] by blast
    have "list_all settled (links s1) \<Longrightarrow> list_all settled (links s')" using s' by (rule settled.all_heard [rotated])
    with ds es show ?thesis by (intro exI [of _ "ds @ es"]) auto
  qed
qed simp

lemma iteration_settles:
  assumes "sender_iteration os s = Inr s'" and "relays_ack s s'"
  shows "list_all settled (links s')"
proof -
  obtain s1 s2 where s1: "s1 = s \<or> (\<exists>s0. update_conns os s = Inr s0 \<and> s1 = s0\<lparr>do_update_conns := False\<rparr>)"
    "connection_housekeeping os s1 = Inr s2" "serve_ready os s2 = Inr s'"
    using assms(1) by (auto simp: sender_iteration_def split: if_splits sum.splits)
  have same: "to_srt s2 = to_srt s" using s1(1) to_srt_update to_srt_housekeeping [OF s1(2)] by auto
  have "s' = snd_called s2 \<or> (\<exists>ready ps. handle_links os ready ps (snd_called s2) = Inr s') \<or>
      (\<exists>ready ps fd. handle_links os ready ps (snd_handle_srt_data os fd (snd_called s2)) = Inr s')"
    using s1(3) by (auto simp: serve_ready_def Let_def split: if_splits)
  then obtain ds where "to_srt s' = to_srt s @ ds" "has_ack ds \<longrightarrow> list_all settled (links s')"
    using same to_srt_taken by (fastforce dest: all_heard_settles)
  with assms(2) show ?thesis by (simp add: relays_ack_def)
qed

section \<open>The bounds\<close>

text \<open>At most \<open>n\<close> packets more in flight than the log of a link has entries. The window exceeds its maximum of 60000 only
  on a link that was never heard from, and then not what \<open>m\<close> packets more than the log would have called for.\<close>

definition load_limit :: "nat \<Rightarrow> nat \<Rightarrow> conn_t \<Rightarrow> bool" where
  "load_limit m n c \<longleftrightarrow> in_flight_pkts c \<le> 256 + int n \<and> c_window c \<le> max 60000 (1000 * (256 + int (max m n)) + 28)"

interpretation bounded: link_property "load_limit m n" for m n
proof
  fix c :: conn_t and a i :: int
  assume c: "load_limit m n c"
  show "load_limit m n (conn_register_srt_ack a c)"
    using c srt_ack_in_flight [of a c] by (simp add: load_limit_def)
  show "load_limit m n (grow_link (ack_link i c))" "load_limit m n (grow_link c)"
    using c by (auto simp: load_limit_def grow_link_def ack_link_def Let_def const_defs)
qed (auto simp: load_limit_def new_link_def nak_link_def reset_link_def const_defs)

interpretation bounded_packet: packet_property "load_limit m n" "load_limit m (Suc n)" for m n
  by unfold_locales (auto simp: load_limit_def reg_pkt_def max_def split: if_splits)

lemma settled_limit: "load_limit m n c \<Longrightarrow> settled c \<Longrightarrow> n \<le> m \<Longrightarrow> load_limit m 0 c"
  by (simp add: load_limit_def settled_def max_absorb1)

text \<open>
  The runs of the sender with a count of the iterations since the last one that relayed an acknowledgement of the SRT
  server, in which this count never exceeds \<open>m\<close>. Hang-up signals may come between any two iterations.
\<close>

inductive counted_run :: "sender_os \<Rightarrow> nat \<Rightarrow> sender \<Rightarrow> nat \<Rightarrow> sender \<Rightarrow> bool" for os m s0 where
  start: "counted_run os m s0 0 s0"
| hup: "counted_run os m s0 n s \<Longrightarrow> counted_run os m s0 n (schedule_update_conns s)"
| quiet: "counted_run os m s0 n s \<Longrightarrow> sender_iteration os s = Inr s' \<Longrightarrow> \<not> relays_ack s s' \<Longrightarrow> n < m \<Longrightarrow>
    counted_run os m s0 (Suc n) s'"
| acked: "counted_run os m s0 n s \<Longrightarrow> sender_iteration os s = Inr s' \<Longrightarrow> relays_ack s s' \<Longrightarrow> counted_run os m s0 0 s'"

lemma counted_run_more: "counted_run os m s0 n s \<Longrightarrow> m \<le> m' \<Longrightarrow> counted_run os m' s0 n s"
  by (induction rule: counted_run.induct) (auto intro: counted_run.intros)

text \<open>Every run of the sender is such a run for some bound.\<close>

lemma sender_run_counted: "sender_run os s0 s \<Longrightarrow> \<exists>m n. counted_run os m s0 n s"
proof (induction rule: sender_run.induct)
  case (step s s')
  then obtain m n where r: "counted_run os m s0 n s" by blast
  then have "counted_run os (max m (Suc n)) s0 n s" by (rule counted_run_more) simp
  then have "counted_run os (max m (Suc n)) s0 (if relays_ack s s' then 0 else Suc n) s'"
    using step.hyps(2) by (auto intro: counted_run.intros)
  then show ?case by blast
qed (auto intro: counted_run.intros)

lemma counted_run_wf: "counted_run os m s0 n s \<Longrightarrow> wf_sender s0 \<Longrightarrow> full_stack os \<Longrightarrow> wf_sender s"
  by (induction rule: counted_run.induct) (auto simp: schedule_update_conns_def intro: wf_iteration)

lemma counted_run_limit:
  assumes "counted_run os m s0 n s" "list_all (load_limit (Suc m) 0) (links s0)"
  shows "n \<le> m \<and> list_all (load_limit (Suc m) n) (links s)"
  using assms
proof (induction rule: counted_run.induct)
  case (quiet n s s')
  then show ?case using bounded_packet.iterated by auto
next
  case (acked n s s')
  then have "list_all (load_limit (Suc m) (Suc n)) (links s')" "n \<le> m" using bounded_packet.iterated by auto
  with iteration_settles [OF acked(2,3)] show ?case by (auto simp: list_all_iff intro: settled_limit)
qed (simp_all add: schedule_update_conns_def)

text \<open>C20. The counters of the links stay in the range of an \<open>int\<close>, for as long as the sender runs. Suppose that at least one of any
  2147227 consecutive iterations relays an acknowledgement of the SRT server. Then in every reachable state each link has
  at most 256 packets in flight more than there were iterations since the last such acknowledgement, which brings every link back to
  256. The packets in flight, their product with the scale of the window, and the window are in range with
  room for one more packet, one more growth and one more loss.\<close>

theorem sender_counters_bounded:
  assumes "sender_start os = Inr s0" "full_stack os" "counted_run os m s0 n s" "m \<le> 2147226"
  shows "n \<le> m \<and> (\<forall>c\<in>set (links s). in_flight_pkts c \<le> 256 + int n \<and> c_window c \<le> max 60000 (1000 * (257 + int m) + 28) \<and>
      int32_range (in_flight_pkts c + 1) \<and> int32_range ((in_flight_pkts c + 1) * WINDOW_MULT) \<and>
      int32_range (c_window c + WINDOW_INCR) \<and> int32_range (c_window c - WINDOW_DECR))"
proof -
  have wf: "list_all wf_link (links s)"
    using counted_run_wf [OF assms(3) wf_start [OF assms(1)] assms(2)] by (simp add: wf_sender_def)
  have n: "n \<le> m" "list_all (load_limit (Suc m) n) (links s)"
    using counted_run_limit [OF assms(3)] bounded.started [OF assms(1)] by simp_all
  then show ?thesis
    using assms(4) wf by (auto simp: list_all_iff load_limit_def int32_range_def wf_link_def const_defs)
qed

end
