(* ===== verification/Startup.thy ===== *)
theory Startup
  imports Exporter
begin

text \<open>
  What the receiver does before its loop: it looks for the SRT server, opens and configures its sockets,
  and starts the metrics endpoint. System calls are answered by a parameter, by the number of the call; the
  command line is a record of the values that the option parser returns.
\<close>

section \<open>The environment\<close>

record startup_os =
  st_getaddrinfo :: "nat \<Rightarrow> string \<Rightarrow> string \<Rightarrow> sockaddr_storage list option"
  st_socket :: "nat \<Rightarrow> u16 \<Rightarrow> int"
  st_setsockopt :: "nat \<Rightarrow> int \<Rightarrow> int"
  st_connect :: "nat \<Rightarrow> int \<Rightarrow> sockaddr_storage \<Rightarrow> int"
  st_send :: "nat \<Rightarrow> int \<Rightarrow> byte list \<Rightarrow> int"
  st_recv :: "nat \<Rightarrow> int \<Rightarrow> int"
  st_epoll_create :: "nat \<Rightarrow> int"
  st_fcntl :: "nat \<Rightarrow> int \<Rightarrow> int"
  st_bind :: "nat \<Rightarrow> int \<Rightarrow> int"
  st_listen :: "nat \<Rightarrow> int \<Rightarrow> int"
  st_epoll_add :: "nat \<Rightarrow> int \<Rightarrow> int"
  st_time :: "nat \<Rightarrow> time_t"

datatype startup_effect = St_Opened int | St_Closed int | St_Probe int "byte list"

record startup =
  st_tick :: nat
  st_out :: "startup_effect list"

record receiver_args =
  arg_srt_hostname :: string
  arg_srt_port :: u16
  arg_metrics_port :: u16
  arg_metrics_bind :: string
  arg_metrics_detail :: bool

definition st_called :: "startup \<Rightarrow> startup" where
  "st_called s = s\<lparr>st_tick := Suc (st_tick s)\<rparr>"

definition st_emit :: "startup_effect \<Rightarrow> startup \<Rightarrow> startup" where
  "st_emit e s = s\<lparr>st_out := st_out s @ [e]\<rparr>"

definition st_close :: "int \<Rightarrow> startup \<Rightarrow> startup" where
  "st_close fd s = st_emit (St_Closed fd) (st_called s)"

text \<open>A call that opens a descriptor, and one that only returns a number.\<close>

definition st_open :: "(nat \<Rightarrow> int) \<Rightarrow> startup \<Rightarrow> int \<times> startup" where
  "st_open call s = (let fd = call (st_tick s) in (fd, if fd < 0 then st_called s else st_emit (St_Opened fd) (st_called s)))"

definition st_call :: "(nat \<Rightarrow> 'a) \<Rightarrow> startup \<Rightarrow> 'a \<times> startup" where
  "st_call call s = (call (st_tick s), st_called s)"

section \<open>Looking for the SRT server\<close>

text \<open>The induction handshake that probes an address.\<close>

definition hs_packet :: "byte list" where
  "hs_packet = put_be16 SRT_TYPE_HANDSHAKE @ replicate 14 0 @ put_be32 4 @ put_be16 0 @ put_be16 2 @ replicate 12 0 @
     put_be32 1 @ replicate 8 0 @ replicate 16 0"

text \<open>The options of a probe socket; each is set only if the previous ones were.\<close>

definition probe_options :: "startup_os \<Rightarrow> int \<Rightarrow> startup \<Rightarrow> bool \<times> startup" where
  "probe_options os tmp_sock s =
     (let (ret, s) = st_call (\<lambda>t. st_setsockopt os t tmp_sock) s
      in if ret \<noteq> 0 then (False, s)
         else let (ret, s) = st_call (\<lambda>t. st_setsockopt os t tmp_sock) s
              in if ret \<noteq> 0 then (False, s)
                 else let (ret, s) = st_call (\<lambda>t. st_setsockopt os t tmp_sock) s in (ret = 0, s))"

text \<open>One round of the loop: whether the address answered, and the socket that is left open.\<close>

definition try_address :: "startup_os \<Rightarrow> sockaddr_storage \<Rightarrow> startup \<Rightarrow> bool \<times> int \<times> startup" where
  "try_address os addr s =
     (let (tmp_sock, s) = st_open (\<lambda>t. st_socket os t (ss_family addr)) s
      in if tmp_sock < 0 then (False, tmp_sock, s)
         else let (socket_opts_ok, s) = probe_options os tmp_sock s
              in if \<not> socket_opts_ok then (False, -1, st_close tmp_sock s)
                 else let (ret, s) = st_call (\<lambda>t. st_connect os t tmp_sock addr) s
                      in if ret \<noteq> 0 then (False, -1, st_close tmp_sock s)
                         else let (ret, s) = st_call (\<lambda>t. st_send os t tmp_sock hs_packet) s;
                                  s = st_emit (St_Probe tmp_sock hs_packet) s
                              in if ret \<noteq> srt_handshake_size then (False, -1, st_close tmp_sock s)
                                 else let (ret, s) = st_call (\<lambda>t. st_recv os t tmp_sock) s
                                      in if ret = srt_handshake_size then (True, tmp_sock, s)
                                         else (False, -1, st_close tmp_sock s))"

fun try_addresses ::
    "startup_os \<Rightarrow> sockaddr_storage list \<Rightarrow> int \<Rightarrow> startup \<Rightarrow> sockaddr_storage option \<times> int \<times> startup" where
  "try_addresses os [] tmp_sock s = (None, tmp_sock, s)"
| "try_addresses os (addr # as) tmp_sock s =
     (case try_address os addr s of
        (True, tmp_sock, s) \<Rightarrow> (Some addr, tmp_sock, s)
      | (False, tmp_sock, s) \<Rightarrow> try_addresses os as tmp_sock s)"

definition resolve_srt_address ::
    "startup_os \<Rightarrow> string \<Rightarrow> string \<Rightarrow> sockaddr_storage \<Rightarrow> startup \<Rightarrow> int \<times> sockaddr_storage \<times> startup" where
  "resolve_srt_address os host port out_addr s =
     (case st_call (\<lambda>t. st_getaddrinfo os t host port) s of
        (None, s) \<Rightarrow> (-1, out_addr, s)
      | (Some srt_addrs, s) \<Rightarrow>
          let (found, tmp_sock, s) = try_addresses os srt_addrs (-1) s;
              s = (if tmp_sock \<noteq> -1 then st_close tmp_sock s else s)
          in case found of
               Some addr \<Rightarrow> (1, addr, s)
             | None \<Rightarrow>
                 (case srt_addrs of
                    [] \<Rightarrow> (-1, out_addr, s)
                  | a # _ \<Rightarrow> (0, if ss_family a = AF_INET \<or> ss_family a = AF_INET6 then a else out_addr, s)))"

section \<open>The metrics endpoint\<close>

definition start_exporter ::
    "startup_os \<Rightarrow> string \<Rightarrow> u16 \<Rightarrow> bool \<Rightarrow> startup \<Rightarrow> bool \<times> exporter \<times> startup" where
  "start_exporter os bind_addr port detail s =
     (let (now, s) = st_call (st_time os) s;
          ex = \<lparr>listen_fd = -1, detailed = detail, start_time = now\<rparr>
      in if port = 0 then (False, ex, s)
         else case st_call (\<lambda>t. st_getaddrinfo os t bind_addr (nat_to_string (unat port))) s of
             (None, s) \<Rightarrow> (False, ex, s)
           | (Some res, s) \<Rightarrow>
               let (fd, s) = st_open (\<lambda>t. st_socket os t (ss_family (hd res))) s
               in if fd < 0 then (False, ex, s)
                  else
                    let (_, s) = st_call (\<lambda>t. st_setsockopt os t fd) s;
                        s = (if ss_family (hd res) = AF_INET6 then snd (st_call (\<lambda>t. st_setsockopt os t fd) s) else s);
                        (flags, s) = st_call (\<lambda>t. st_fcntl os t fd) s;
                        (ok, s) = st_call (\<lambda>t. st_bind os t fd = 0) s;
                        (ok, s) = (if ok then st_call (\<lambda>t. st_listen os t fd = 0) s else (False, s));
                        ok = (ok \<and> flags \<noteq> -1);
                        (ok, s) = (if ok then st_call (\<lambda>t. st_fcntl os t fd \<noteq> -1) s else (False, s));
                        (ok, s) = (if ok then st_call (\<lambda>t. st_epoll_add os t fd = 0) s else (False, s))
                    in if \<not> ok then (False, ex, st_close fd s) else (True, ex\<lparr>listen_fd := fd\<rparr>, s))"

section \<open>The program up to its loop\<close>

definition set_socket_buffers :: "startup_os \<Rightarrow> int \<Rightarrow> startup \<Rightarrow> bool \<times> startup" where
  "set_socket_buffers os socket_fd s =
     (let (ret, s) = st_call (\<lambda>t. st_setsockopt os t socket_fd) s
      in if ret \<noteq> 0 then (False, s)
         else let (ret, s) = st_call (\<lambda>t. st_setsockopt os t socket_fd) s in (ret = 0, s))"

text \<open>The SRTLA socket: dual-stack, buffered, non-blocking, bound and watched.\<close>

definition configure_srtla_sock :: "startup_os \<Rightarrow> int \<Rightarrow> startup \<Rightarrow> bool \<times> startup" where
  "configure_srtla_sock os srtla_sock s =
     (let (ret, s) = st_call (\<lambda>t. st_setsockopt os t srtla_sock) s
      in if ret < 0 then (False, s)
         else let (ok, s) = set_socket_buffers os srtla_sock s
              in if \<not> ok then (False, s)
                 else let (flags, s) = st_call (\<lambda>t. st_fcntl os t srtla_sock) s
                      in if flags = -1 then (False, s)
                         else let (ret, s) = st_call (\<lambda>t. st_fcntl os t srtla_sock) s
                              in if ret = -1 then (False, s)
                                 else let (ret, s) = st_call (\<lambda>t. st_bind os t srtla_sock) s
                                      in if ret < 0 then (False, s)
                                         else let (ret, s) = st_call (\<lambda>t. st_epoll_add os t srtla_sock) s
                                              in (ret = 0, s))"

text \<open>The state the loop starts in, with the SRTLA socket; \<open>None\<close> is \<open>EXIT_FAILURE\<close>.\<close>

definition start_receiver :: "startup_os \<Rightarrow> receiver_args \<Rightarrow> startup \<Rightarrow> (int \<times> receiver \<times> exporter) option \<times> startup" where
  "start_receiver os args s =
     (let (resolve_result, sa, s) =
            resolve_srt_address os (arg_srt_hostname args) (nat_to_string (unat (arg_srt_port args))) zero_addr s
      in if resolve_result < 0 then (None, s)
         else let (efd, s) = st_open (st_epoll_create os) s
              in if efd < 0 then (None, s)
                 else let (srtla_sock, s) = st_open (\<lambda>t. st_socket os t AF_INET6) s
                      in if srtla_sock < 0 then (None, s)
                         else let (ok, s) = configure_srtla_sock os srtla_sock s
                              in if \<not> ok then (None, s)
                                 else let (_, ex, s) = start_exporter os (arg_metrics_bind args) (arg_metrics_port args)
                                            (arg_metrics_detail args) s
                                      in (Some (srtla_sock, init_receiver sa efd, ex), s))"

section \<open>Descriptors\<close>

fun st_opened_in :: "startup_effect list \<Rightarrow> int list" where
  "st_opened_in [] = []"
| "st_opened_in (St_Opened fd # es) = fd # st_opened_in es"
| "st_opened_in (e # es) = st_opened_in es"

fun st_closed_in :: "startup_effect list \<Rightarrow> int list" where
  "st_closed_in [] = []"
| "st_closed_in (St_Closed fd # es) = fd # st_closed_in es"
| "st_closed_in (e # es) = st_closed_in es"

lemma st_in_append [simp]:
  "st_opened_in (es @ fs) = st_opened_in es @ st_opened_in fs" "st_closed_in (es @ fs) = st_closed_in es @ st_closed_in fs"
  by (induction es rule: st_opened_in.induct) simp_all

text \<open>All that was opened is closed again or held in the list.\<close>

definition st_holds :: "int list \<Rightarrow> startup \<Rightarrow> bool" where
  "st_holds ls s \<longleftrightarrow> (\<forall>fd \<ge> 0. count_list (st_opened_in (st_out s)) fd =
     count_list (st_closed_in (st_out s)) fd + count_list ls fd)"

lemma holds_call [simp]: "st_holds ls (snd (st_call c s)) = st_holds ls s" "st_holds ls (st_called s) = st_holds ls s"
  "st_holds ls (st_emit (St_Probe fd b) s) = st_holds ls s"
  by (simp_all add: st_call_def st_called_def st_holds_def st_emit_def)

lemma holds_negative [simp]: "fd < 0 \<Longrightarrow> st_holds (fd # ls) s = st_holds ls s"
  by (auto simp: st_holds_def)

lemma holds_open: "st_holds ls s \<Longrightarrow> st_holds (fst (st_open c s) # ls) (snd (st_open c s))"
  by (auto simp: st_open_def st_holds_def st_emit_def st_called_def Let_def)

lemma holds_close: "st_holds (fd # ls) s \<Longrightarrow> st_holds ls (st_close fd s)"
  by (auto simp: st_close_def st_holds_def st_emit_def st_called_def)

lemma holds_options [simp]:
  "st_holds ls (snd (probe_options os fd s)) = st_holds ls s"
  "st_holds ls (snd (set_socket_buffers os fd s)) = st_holds ls s"
  "st_holds ls (snd (configure_srtla_sock os fd s)) = st_holds ls s"
  by (simp_all add: probe_options_def set_socket_buffers_def configure_srtla_sock_def Let_def split_def)

lemma holds_try_address:
  assumes "st_holds ls s" "try_address os addr s = (ok, sock, s')"
  shows "st_holds (sock # ls) s' \<and> (ok = (0 \<le> sock))"
  using assms(2) holds_open [OF assms(1), of "\<lambda>t. st_socket os t (ss_family addr)"]
  by (auto simp: try_address_def Let_def split_def holds_close split: if_splits)

lemma holds_try_addresses:
  assumes "st_holds ls s" "sock < 0" "try_addresses os as sock s = (found, sock', s')"
  shows "st_holds (sock' # ls) s' \<and> (case found of None \<Rightarrow> sock' < 0 | Some a \<Rightarrow> 0 \<le> sock' \<and> a \<in> set as)"
  using assms
proof (induction as arbitrary: sock s)
  case (Cons addr as)
  obtain ok sock1 s1 where r: "try_address os addr s = (ok, sock1, s1)" by (cases "try_address os addr s") auto
  note h = holds_try_address [OF Cons.prems(1) r]
  show ?case
  proof (cases ok)
    case True
    with h Cons.prems(3) r show ?thesis by auto
  next
    case False
    then have "try_addresses os as sock1 s1 = (found, sock', s')" "st_holds ls s1" "sock1 < 0"
      using h Cons.prems(3) r by auto
    from Cons.IH [OF this(2,3,1)] show ?thesis by (auto split: option.splits)
  qed
qed auto

lemma holds_resolve:
  assumes "st_holds ls s"
  shows "st_holds ls (snd (snd (resolve_srt_address os host port oa s)))"
proof (cases "st_getaddrinfo os (st_tick s) host port")
  case (Some as)
  obtain found sock s' where r: "try_addresses os as (-1) (st_called s) = (found, sock, s')"
    by (cases "try_addresses os as (-1) (st_called s)") auto
  have h: "st_holds (sock # ls) s'" "case found of None \<Rightarrow> sock < 0 | Some a \<Rightarrow> 0 \<le> sock"
    using holds_try_addresses [OF _ _ r, of ls] assms by (auto split: option.splits)
  then have "st_holds ls (if sock \<noteq> -1 then st_close sock s' else s')" by (auto intro: holds_close)
  then show ?thesis using Some r by (auto simp: resolve_srt_address_def st_call_def Let_def split: option.split list.split)
qed (simp add: resolve_srt_address_def st_call_def assms)

lemma holds_start_exporter:
  assumes "st_holds ls s"
  shows "st_holds (listen_fd (fst (snd (start_exporter os b p d s))) # ls) (snd (snd (start_exporter os b p d s)))"
proof -
  define s1 where "s1 = st_called s"
  have "st_holds ls s1" using assms by (simp add: s1_def)
  show ?thesis
  proof (cases "p = 0 \<or> st_getaddrinfo os (st_tick s1) b (nat_to_string (unat p)) = None")
    case True
    then show ?thesis using assms by (auto simp: start_exporter_def st_call_def Let_def s1_def)
  next
    case False
    then obtain res where res: "p \<noteq> 0" "st_getaddrinfo os (st_tick s1) b (nat_to_string (unat p)) = Some res" by auto
    have h: "st_holds (fst (st_open c (st_called s1)) # ls) (snd (st_open c (st_called s1)))" for c
      using assms by (intro holds_open) (simp add: s1_def)
    from h [of "\<lambda>t. st_socket os t (ss_family (hd res))"] show ?thesis
      using res by (auto simp: start_exporter_def st_call_def Let_def s1_def [symmetric] split_def intro!: holds_close)
  qed
qed

text \<open>The SRT server is looked for without losing a descriptor: every socket that a probe opens is closed
  again, whichever step of the probe fails. The result is 1 with an address that was resolved, 0 with the
  first one if none of them answered, and -1, the address untouched, only if there is none.\<close>

lemma server_address_resolved:
  assumes "resolve_srt_address os host port oa s = (found, addr, s')" "st_out s = []" "0 \<le> fd"
    and known: "\<And>t as. st_getaddrinfo os t host port = Some as \<Longrightarrow> \<forall>a\<in>set as. ss_family a = AF_INET \<or> ss_family a = AF_INET6"
  shows "count_list (st_opened_in (st_out s')) fd = count_list (st_closed_in (st_out s')) fd \<and>
    (case st_getaddrinfo os (st_tick s) host port of
       None \<Rightarrow> found = -1 \<and> addr = oa
     | Some as \<Rightarrow> found = 1 \<and> addr \<in> set as \<or> found = 0 \<and> as \<noteq> [] \<and> addr = hd as \<or> found = -1 \<and> as = [] \<and> addr = oa)"
proof -
  have "st_holds [] s" using assms(2) by (simp add: st_holds_def)
  then have "st_holds [] s'" using holds_resolve [of "[]" s os host port oa] assms(1) by simp
  then have "count_list (st_opened_in (st_out s')) fd = count_list (st_closed_in (st_out s')) fd"
    using assms(3) by (simp add: st_holds_def)
  moreover have "found = 1 \<and> addr \<in> set as \<or> found = 0 \<and> as \<noteq> [] \<and> addr = hd as \<or> found = -1 \<and> as = [] \<and> addr = oa"
    if as: "st_getaddrinfo os (st_tick s) host port = Some as" for as
  proof -
    obtain fo sock s1 where r: "try_addresses os as (-1) (st_called s) = (fo, sock, s1)"
      by (cases "try_addresses os as (-1) (st_called s)") auto
    have "case fo of None \<Rightarrow> True | Some a \<Rightarrow> a \<in> set as"
      using holds_try_addresses [OF _ _ r, of "[]"] \<open>st_holds [] s\<close> by (auto split: option.splits)
    then show ?thesis
      using assms(1) as r known [OF as]
      by (auto simp: resolve_srt_address_def st_call_def Let_def split: option.splits list.splits if_splits)
  qed
  moreover have "found = -1 \<and> addr = oa" if "st_getaddrinfo os (st_tick s) host port = None"
    using assms(1) that by (simp add: resolve_srt_address_def st_call_def)
  ultimately show ?thesis by (simp split: option.split)
qed

text \<open>C32. A receiver that enters its loop holds exactly the descriptors it needs: the epoll instance, the
  SRTLA socket and, if the metrics endpoint could be started, its listener; every other descriptor opened on the way is
  closed, the sockets that probed for the SRT server included. It forwards to one of the addresses that the
  name of the SRT server resolved to. Its tables are empty, and the loop starts in a well-formed state.\<close>

theorem startup_descriptors:
  fixes args :: receiver_args
  defines "port \<equiv> nat_to_string (unat (arg_srt_port args))"
  assumes "start_receiver os args s = (Some (srtla_sock, r, ex), s')" "st_out s = []" "0 \<le> fd"
    and known: "\<And>t as. st_getaddrinfo os t (arg_srt_hostname args) port = Some as \<Longrightarrow>
      \<forall>a\<in>set as. ss_family a = AF_INET \<or> ss_family a = AF_INET6"
  shows "count_list (st_opened_in (st_out s')) fd =
      count_list (st_closed_in (st_out s')) fd + count_list [epoll_fd r, srtla_sock, listen_fd ex] fd \<and>
    (\<exists>as. st_getaddrinfo os (st_tick s) (arg_srt_hostname args) port = Some as \<and> srt_addr r \<in> set as) \<and>
    wf_receiver r \<and> groups r = [] \<and> 0 \<le> epoll_fd r \<and> 0 \<le> srtla_sock"
proof -
  obtain n sa s1 where s1: "resolve_srt_address os (arg_srt_hostname args) port zero_addr s = (n, sa, s1)"
    by (cases "resolve_srt_address os (arg_srt_hostname args) port zero_addr s") auto
  obtain efd s2 where s2: "st_open (st_epoll_create os) s1 = (efd, s2)" by fastforce
  obtain sock s3 where s3: "st_open (\<lambda>t. st_socket os t AF_INET6) s2 = (sock, s3)" by fastforce
  obtain ok s4 where s4: "configure_srtla_sock os sock s3 = (ok, s4)" by fastforce
  obtain b ex' s5 where s5: "start_exporter os (arg_metrics_bind args) (arg_metrics_port args) (arg_metrics_detail args) s4 = (b, ex', s5)"
    by (cases "start_exporter os (arg_metrics_bind args) (arg_metrics_port args) (arg_metrics_detail args) s4") auto
  have eq: "0 \<le> n" "0 \<le> efd" "0 \<le> sock" "r = init_receiver sa efd" "srtla_sock = sock" "ex = ex'" "s' = s5"
    using assms(2) by (auto simp: start_receiver_def port_def [symmetric] s1 s2 s3 s4 s5 Let_def split: if_splits)
  have "st_holds [] s" using assms(3) by (simp add: st_holds_def)
  then have "st_holds [] s1" using holds_resolve [of "[]" s] s1 by (metis snd_conv)
  then have "st_holds [efd] s2" using holds_open [of "[]" s1 "st_epoll_create os"] by (simp add: s2)
  then have "st_holds [sock, efd] s3" using holds_open [of "[efd]" s2 "\<lambda>t. st_socket os t AF_INET6"] by (simp add: s3)
  then have "st_holds [sock, efd] s4" using holds_options(3) [of _ os sock s3] by (simp add: s4)
  then have held: "st_holds [listen_fd ex', sock, efd] s5" using holds_start_exporter [of _ s4 os] s5 by (metis fst_conv snd_conv)
  have "case st_getaddrinfo os (st_tick s) (arg_srt_hostname args) port of
      None \<Rightarrow> n = -1 \<and> sa = zero_addr
    | Some as \<Rightarrow> n = 1 \<and> sa \<in> set as \<or> n = 0 \<and> as \<noteq> [] \<and> sa = hd as \<or> n = -1 \<and> as = [] \<and> sa = zero_addr"
    by (rule conjunct2 [OF server_address_resolved [OF s1 assms(3,4)]]) (rule known)
  then have "\<exists>as. st_getaddrinfo os (st_tick s) (arg_srt_hostname args) port = Some as \<and> srt_addr r \<in> set as"
    using eq(1)
    by (auto simp: eq(4) init_receiver_def split: option.splits)
  moreover have "wf_receiver r" by (simp add: eq wf_receiver_def init_receiver_def wf_groups_def)
  ultimately show ?thesis using eq assms(4) held by (simp add: st_holds_def init_receiver_def)
qed

end
