(* ===== verification/Witnesses.thy ===== *)
theory Witnesses
  imports Dangling Scoring Scrape Cleanup End_To_End Sender_Counters Startup
begin

text \<open>
  Concrete instances of the properties that have hypotheses: a kernel that answers every call
  with success, a small group table, sample packets, and the application of the properties
  to them; those of both programs together are applied where they are stated.
\<close>

definition sample_addr :: "byte \<Rightarrow> u16 \<Rightarrow> sockaddr_storage" where
  "sample_addr b port = \<lparr>ss_family = AF_INET, sa_port = port, sin_addr = [10, 0, 0, b],
     sin6_addr = replicate 16 0\<rparr>"

definition calm_os :: os where
  "calm_os = \<lparr>os_sendto = (\<lambda>t a b. int (length b)), os_sendmmsg = (\<lambda>t ms. int (length ms)),
     os_send = (\<lambda>t fd b. (int (length b), 0)), os_recv = (\<lambda>t fd. None), os_recvmmsg = (\<lambda>t. None),
     os_socket = (\<lambda>t. 9), os_setsockopt = (\<lambda>t fd. 0), os_fcntl = (\<lambda>t fd. 0),
     os_connect = (\<lambda>t fd. 0), os_epoll_ctl = (\<lambda>t fd. 0), os_getsockname = (\<lambda>t fd. Some (AF_INET, 4242)),
     os_fopen = (\<lambda>t. True), os_read = (\<lambda>t n. replicate n 7), os_clock = (\<lambda>t. Some (100, 0)),
     os_accept = (\<lambda>t. None),
     os_http_send = (\<lambda>t fd str. (int (length str), False)), os_ntop6 = (\<lambda>b. ''::1'')\<rparr>"

text \<open>A group of two connections that streams, and one that never did.\<close>

definition sample_group :: connection_group where
  "sample_group = (new_group 0 (replicate 256 1) (replicate 128 2) 50)
     \<lparr>conns := [new_connection (sample_addr 1 1) 50, new_connection (sample_addr 2 1) 50],
      data_seen := True, srt_sock := 9, last_addr := sample_addr 1 1, group_epoll_fd := 4\<rparr>"

definition ghost_group :: connection_group where
  "ghost_group = (new_group 1 (replicate 256 3) (replicate 128 4) 60)\<lparr>last_addr := sample_addr 3 1\<rparr>"

definition sample_receiver :: receiver where
  "sample_receiver = (init_receiver (sample_addr 9 9) 4)\<lparr>groups := [sample_group, ghost_group], next_ptr := 2\<rparr>"

definition sample_ack :: "byte list" where
  "sample_ack = [0x80, 0x02] @ replicate 14 0"

definition sample_shutdown :: "byte list" where
  "sample_shutdown = [0x80, 0x05] @ replicate 14 0"

theorem keepalive_roundtrip_witness:
  "parse_keepalive_conn_info
     (ext_keepalive [1, 2, 3, 4, 5, 6, 7, 8]
        \<lparr>ci_conn_id = 7, ci_window = -3, ci_in_flight = 2147483647, ci_rtt_ms = 40,
         ci_nak_count = 4294967295, ci_bitrate_bytes_per_sec = 500000\<rparr> @ [0xAB]) 39 =
   Some \<lparr>ci_conn_id = 7, ci_window = -3, ci_in_flight = 2147483647, ci_rtt_ms = 40,
         ci_nak_count = 4294967295, ci_bitrate_bytes_per_sec = 500000\<rparr>"
  by (rule keepalive_roundtrip) (simp_all add: int32_range_def)

theorem limiter_cleanup_unobservable_witness:
  "limiter_answers [(1, Fail (sample_addr 1 5)), (2, Clean), (3, Query (sample_addr 1 6)), (200, Clean)] [] =
   limiter_answers [(1, Fail (sample_addr 1 5)), (3, Query (sample_addr 1 6))] []"
  using limiter_cleanup_unobservable [of "[]" "[(1, Fail (sample_addr 1 5)), (2, Clean), (3, Query (sample_addr 1 6)), (200, Clean)]"]
  by simp

theorem blocked_iff_five_failures_witness:
  "is_blocked (sample_addr 1 99) 95
     (record_failures [(sample_addr 1 1, 1), (sample_addr 1 2, 2), (sample_addr 2 2, 3), (sample_addr 1 3, 3), (sample_addr 1 4, 30),
       (sample_addr 1 5, 40)] []) \<and>
   \<not> is_blocked (sample_addr 1 1) 163 (record_failures (map (Pair (sample_addr 1 1)) [100, 155, 156, 157, 161, 162]) [])"
proof -
  have k: "key_for (sample_addr 1 p) = key_for (sample_addr 1 q)" "key_for (sample_addr 2 p) \<noteq> key_for (sample_addr 1 q)" for p q
    by (simp_all add: key_for_def sample_addr_def bytes_of_def upt_rec const_defs)
  let ?fs = "[(sample_addr 1 1, 1), (sample_addr 1 2, 2), (sample_addr 2 2, 3), (sample_addr 1 3, 3), (sample_addr 1 4, 30),
       (sample_addr 1 5, 40)] :: (sockaddr_storage \<times> time_t) list"
  let ?gs = "map (Pair (sample_addr 1 1)) [100, 155, 156, 157, 161, 162] :: (sockaddr_storage \<times> time_t) list"
  have "failure_times (sample_addr 1 99) ?fs = [1, 2, 3, 30, 40]" "failure_times (sample_addr 1 1) ?gs = [100, 155, 156, 157, 161, 162]"
    using k(1) [of _ 99] k(2) [of _ 99] by (simp_all add: failure_times_def)
  moreover have "lockouts [1, 2, 3, 30, 40] = [40]" "lockouts [100, 155, 156, 157, 161, 162] = []"
    by (simp_all add: eval_nat_numeral)
  ultimately show ?thesis
    using blocked_iff_five_failures [of "[]" "sample_addr 1 99" ?fs 95]
      blocked_iff_five_failures [of "[]" "sample_addr 1 1" ?gs 163]
    by simp
qed


lemmas sample_defs = sample_receiver_def sample_group_def ghost_group_def sample_addr_def calm_os_def
  init_receiver_def new_group_def new_connection_def new_stats_def

lemma wf_sample_receiver: "wf_receiver sample_receiver"
  by (simp add: wf_receiver_def wf_groups_def wf_group_def wf_conn_def wf_stats_def owned_def addr_key_def
      bytes_of_def upt_rec sample_defs const_defs)


lemma get_sample_group: "get_group 0 sample_receiver = Some sample_group"
  by (simp add: get_group_def sample_defs)

theorem evict_only_oldest_pending_witness:
  "wf_receiver sample_receiver \<and>
   (case evict_oldest_pending_group calm_os sample_receiver of
      (False, s') \<Rightarrow> s' = sample_receiver \<and> (\<forall>g\<in>set (groups sample_receiver). conns g \<noteq> [] \<or> data_seen g)
    | (True, s') \<Rightarrow> (\<exists>xs g ys. groups sample_receiver = xs @ g # ys \<and> groups s' = xs @ ys \<and>
          conns g = [] \<and> \<not> data_seen g \<and>
          (\<forall>h\<in>set (groups sample_receiver). conns h = [] \<and> \<not> data_seen h \<longrightarrow> created_at g \<le> created_at h)))"
  using wf_sample_receiver evict_only_oldest_pending [OF wf_sample_receiver, of calm_os] by simp

theorem forward_false_iff_group_removed_witness:
  "get_group 0 sample_receiver = Some sample_group \<and>
   (case forward_to_srt_server (calm_os\<lparr>os_send := \<lambda>t fd b. (-1, ECONNREFUSED)\<rparr>) 0 [1, 2, 3] sample_receiver of
      (ok, s') \<Rightarrow> \<not> ok \<and> get_group 0 s' = None)"
  using get_sample_group
    forward_false_iff_group_removed [OF get_sample_group,
      where os = "calm_os\<lparr>os_send := \<lambda>t fd b. (-1, ECONNREFUSED)\<rparr>" and buffer = "[1, 2, 3]"]
  by (auto simp: send_ok_def sample_defs EAGAIN_def EINTR_def ENOBUFS_def ECONNREFUSED_def split: prod.splits if_splits)

theorem rejection_penalises_and_removes_witness:
  "groups (handle_srt_data (calm_os\<lparr>os_recv := \<lambda>t fd. Some sample_shutdown\<rparr>) 0 sample_receiver) = [ghost_group] \<and>
   limiter (handle_srt_data (calm_os\<lparr>os_recv := \<lambda>t fd. Some sample_shutdown\<rparr>) 0 sample_receiver) =
     record_failure (sample_addr 1 1) 100 []"
proof -
  let ?os = "calm_os\<lparr>os_recv := \<lambda>t fd. Some sample_shutdown\<rparr>"
  have t: "is_srt_shutdown sample_shutdown (int (length sample_shutdown))"
    "\<not> is_srt_ack sample_shutdown (int (length sample_shutdown))"
    "\<not> is_srt_nak sample_shutdown (int (length sample_shutdown))"
    by (simp_all add: is_srt_shutdown_def is_srt_ack_def is_srt_nak_def get_srt_type_def sample_shutdown_def
        be16_def const_defs)
  have "filter (\<lambda>h. gptr h \<noteq> 0) (groups sample_receiver) = [ghost_group]" "limiter sample_receiver = []"
    "last_addr sample_group = sample_addr 1 1" "\<not> established sample_group"
    by (simp_all add: sample_defs)
  with t rejection_penalises_and_removes [OF get_sample_group, of ?os sample_shutdown 100]
  show ?thesis by (simp add: sample_shutdown_def MTU_def calm_os_def Let_def os_seconds_def get_seconds_def)
qed

section \<open>Runs of the receiver\<close>

definition sample_reg1 :: "byte list" where
  "sample_reg1 = [0x92, 0x00] @ replicate 256 5"

definition sample_data :: "byte list" where
  "sample_data = replicate 16 0"

definition sample_keepalive :: "byte list" where
  "sample_keepalive = [0x90, 0x00, 5, 5, 5, 5, 5, 5, 5, 5]"

definition reg_os :: os where
  "reg_os = calm_os\<lparr>os_recvmmsg := \<lambda>t. Some [(sample_addr 7 1, sample_reg1)]\<rparr>"

definition stale_os :: os where
  "stale_os = calm_os
     \<lparr>os_recvmmsg := \<lambda>t. Some [(sample_addr 1 1, sample_data), (sample_addr 7 1, sample_reg1)],
      os_send := \<lambda>t fd b. (-1, ECONNREFUSED)\<rparr>"

definition sample_ex :: exporter where
  "sample_ex = \<lparr>listen_fd = -1, detailed = False, start_time = 0\<rparr>"

lemma sample_iteration:
  "case iteration reg_os sample_ex [Ev_Srtla] (init_receiver (sample_addr 9 9) 4) of
     Inl _ \<Rightarrow> False | Inr s \<Rightarrow> length (groups s) = 1"
  by code_simp

lemma sample_run:
  obtains s where "run reg_os sample_ex (init_receiver (sample_addr 9 9) 4) s" "length (groups s) = 1"
proof (cases "iteration reg_os sample_ex [Ev_Srtla] (init_receiver (sample_addr 9 9) 4)")
  case (Inr s)
  with sample_iteration show thesis using that run.loop [OF run.start Inr] by simp
qed (use sample_iteration in simp)

theorem receiver_refines_lifecycle_witness:
  "\<exists>s. length (groups s) = 1 \<and>
     vstep\<^sup>*\<^sup>* (view (init_receiver (sample_addr 9 9) 4)) (view s)"
  using sample_run receiver_refines_lifecycle [OF init_invariants(1)] by metis

theorem reachable_well_formed_witness: "\<exists>s. length (groups s) = 1 \<and> wf_receiver s"
  using sample_run reachable_well_formed by metis

theorem group_counters_balance_witness:
  "\<exists>s :: receiver. length (groups s) = 1 \<and> counter_value GROUP_REGISTRATIONS (g_values s) =
    counter_value GROUPS_REMOVED_IDLE (g_values s) + counter_value GROUPS_REMOVED_AUTH (g_values s) +
    counter_value GROUPS_REMOVED_SRT_ERROR (g_values s) + counter_value GROUPS_REMOVED_EVICTED (g_values s) + 1"
proof -
  obtain s where "run reg_os sample_ex (init_receiver (sample_addr 9 9) 4) s" "length (groups s) = 1"
    by (rule sample_run)
  then show ?thesis using group_counters_balance [of reg_os sample_ex "sample_addr 9 9" 4 s]
    by (metis One_nat_def of_nat_1)
qed

theorem descriptors_balance_witness:
  "\<exists>s :: receiver. length (groups s) = 1 \<and> count_list (opened_in (out s)) 9 =
    count_list (closed_in (out s)) 9 + count_list (map srt_sock (groups s)) 9"
proof -
  obtain s where "run reg_os sample_ex (init_receiver (sample_addr 9 9) 4) s" "length (groups s) = 1"
    by (rule sample_run)
  then show ?thesis using descriptors_balance [of reg_os sample_ex "sample_addr 9 9" 4 s 9]
    by (metis zero_less_numeral)
qed

lemma sample_types:
  "is_srtla_reg1 sample_reg1 258" "length sample_reg1 = 258"
  "is_srtla_keepalive sample_keepalive 10" "\<not> is_srtla_reg1 sample_keepalive 10"
  "\<not> is_srtla_reg2 sample_keepalive 10" "length sample_keepalive = 10" "plain_data sample_data" "length sample_data = 16"
  by (simp_all add: sample_reg1_def sample_keepalive_def sample_data_def plain_data_def is_srtla_reg1_def is_srtla_reg2_def
      is_srtla_keepalive_def is_srt_nak_packet_def get_srt_type_def be16_def const_defs)

lemma find_sample_addr:
  "find_by_address (sample_addr 1 1) (groups sample_receiver) = Some (0, Some 0)"
  "find_by_address (sample_addr 7 1) (groups sample_receiver) = None"
  "find_by_address (sample_addr 8 1) (groups sample_receiver) = None"
  by (simp_all add: sample_defs addresses_equal_key addr_key_def bytes_of_def upt_rec const_defs)

theorem datagram_isolation_witness:
  "\<exists>s'. process_single_packet calm_os sample_keepalive (sample_addr 1 1) 100 sample_receiver = Inr s' \<and>
     ghost_group \<in> set (groups s')"
proof -
  obtain s' where s': "process_single_packet calm_os sample_keepalive (sample_addr 1 1) 100 sample_receiver = Inr s'"
    using find_sample_addr(1) by (simp add: process_single_packet_def sample_types)
  moreover have "ghost_group \<in> set (groups sample_receiver)" by (simp add: sample_receiver_def)
  moreover have "addr_key (sample_addr 1 1) \<notin> owned ghost_group"
    by (simp add: owned_def sample_defs addr_key_def bytes_of_def upt_rec const_defs)
  ultimately show ?thesis using datagram_isolation [OF wf_sample_receiver s', of ghost_group] by (simp add: sample_types)
qed

theorem no_use_after_free_witness:
  "handle_events (calm_os\<lparr>os_recvmmsg := \<lambda>t. Some [(sample_addr 1 1, sample_keepalive)]\<rparr>) sample_ex 100
     [Ev_Srtla, Ev_Group 0] sample_receiver \<noteq> Inl Use_After_Free"
proof (rule no_use_after_free [OF wf_sample_receiver])
  show "live_events [Ev_Srtla, Ev_Group 0] sample_receiver"
    by (simp add: live_events_def ptrs_def sample_defs)
qed (auto simp: no_reg1_def sample_types MTU_def)

theorem stale_event_use_after_free_witness:
  "handle_events stale_os sample_ex 100 [Ev_Srtla, Ev_Group 0] sample_receiver = Inl Use_After_Free"
proof (rule stale_event_use_after_free [OF wf_sample_receiver sample_types(7) _ find_sample_addr(1)
      get_sample_group, where ret = "-1" and err = ECONNREFUSED and reg = sample_reg1 and naddr = "sample_addr 7 1"])
  show "\<not> is_blocked (sample_addr 7 1) 100 (limiter sample_receiver)"
    by (simp add: sample_receiver_def init_receiver_def is_blocked_def)
qed (simp_all add: sample_types find_sample_addr MTU_def send_ok_def stale_os_def calm_os_def replies_sent_def
    sample_group_def const_defs)

lemma sample_id_free:
  assumes "length i = 256" "take 128 i = take 128 (drop 2 sample_reg1)"
  shows "find_group_by_id i (groups sample_receiver) = None"
proof -
  have "i ! 0 = 5" using assms nth_take [of 0 128 i] by (simp add: sample_reg1_def)
  moreover have "gid sample_group ! 0 = 1" "gid ghost_group ! 0 = 3"
    by (simp_all add: sample_group_def ghost_group_def new_group_def const_defs nth_append)
  ultimately have "take 256 (gid sample_group) \<noteq> take 256 i" "take 256 (gid ghost_group) \<noteq> take 256 i"
    using nth_take [of 0 256] by (auto dest: arg_cong [where f = "\<lambda>xs. xs ! 0"])
  then show ?thesis
    using assms(1) constant_time_compare_zero [of 256 "gid sample_group" i] constant_time_compare_zero [of 256 "gid ghost_group" i]
    by (auto simp: find_group_by_id_def sample_receiver_def SRTLA_ID_LEN_def sample_group_def ghost_group_def new_group_def)
qed

theorem registration_handshake_witness:
  "\<exists>(g :: connection_group) s1 s2. process_single_packet calm_os sample_reg1 (sample_addr 7 1) 100 sample_receiver = Inr s1 \<and>
     out s1 = [Sent_To (sample_addr 7 1) (put_be16 SRTLA_TYPE_REG2 @ gid g)] \<and>
     process_batch calm_os 101 [(sample_addr 7 1, put_be16 SRTLA_TYPE_REG2 @ gid g),
       (sample_addr 8 1, put_be16 SRTLA_TYPE_REG2 @ gid g)] s1 = Inr s2 \<and>
     find_by_address (sample_addr 8 1) (groups s2) = Some (gptr g, Some 1)"
proof -
  have *: "length (groups sample_receiver) < MAX_GROUPS" "replies_sent calm_os" "out sample_receiver = []"
    "\<not> is_blocked (sample_addr 7 1) 100 (limiter sample_receiver)"
    "is_srtla_reg1 sample_reg1 (int (length sample_reg1))"
    by (simp_all add: sample_receiver_def init_receiver_def is_blocked_def replies_sent_def calm_os_def const_defs
        sample_types [unfolded const_defs])
  let ?as = "[sample_addr 7 1, sample_addr 8 1]"
  have as: "length ?as \<le> MAX_CONNS_PER_GROUP" "distinct (map addr_key ?as)"
    "\<forall>a\<in>set ?as. find_by_address a (groups sample_receiver) = None"
    by (simp_all add: find_sample_addr MAX_CONNS_PER_GROUP_def)
      (simp add: addr_key_def sample_addr_def bytes_of_def upt_rec const_defs)
  obtain g :: connection_group and s1 where g: "process_single_packet calm_os sample_reg1 (sample_addr 7 1) 100 sample_receiver = Inr s1"
    "out s1 = out sample_receiver @ [Sent_To (sample_addr 7 1) (put_be16 SRTLA_TYPE_REG2 @ gid g)]"
    "length (gid g) = SRTLA_ID_LEN"
    "take (SRTLA_ID_LEN div 2) (gid g) = take (SRTLA_ID_LEN div 2) (drop 2 sample_reg1)"
    and join: "\<forall>as ts2. find_group_by_id (gid g) (groups sample_receiver) = None \<and> length as \<le> MAX_CONNS_PER_GROUP \<and>
          distinct (map addr_key as) \<and> (\<forall>a\<in>set as. find_by_address a (groups sample_receiver) = None) \<longrightarrow>
        (\<exists>s2. process_batch calm_os ts2 (map (\<lambda>a. (a, put_be16 SRTLA_TYPE_REG2 @ gid g)) as) s1 = Inr s2 \<and>
           (\<forall>k < length as. find_by_address (as ! k) (groups s2) = Some (gptr g, Some k) \<and>
              Sent_To (as ! k) (pad32 (put_be16 SRTLA_TYPE_REG3)) \<in> set (drop (length (out s1)) (out s2))))"
    using registration_handshake [OF wf_sample_receiver *(2,1,5) find_sample_addr(2) *(4)] by (elim exE conjE) (rule that)
  have free: "find_group_by_id (gid g) (groups sample_receiver) = None"
    using sample_id_free g(3,4) by (simp add: SRTLA_ID_LEN_def)
  obtain s2 where "process_batch calm_os 101 (map (\<lambda>a. (a, put_be16 SRTLA_TYPE_REG2 @ gid g)) ?as) s1 = Inr s2"
    "\<forall>k < length ?as. find_by_address (?as ! k) (groups s2) = Some (gptr g, Some k)"
    using join free as by metis
  then show ?thesis using g(1,2) *(3) by (intro exI [of _ g] exI [of _ s1] exI [of _ s2]) auto
qed

lemma get_sample_conn: "get_conn 0 0 sample_receiver = Some (new_connection (sample_addr 1 1) 50)"
  by (simp add: get_conn_def get_sample_group) (simp add: sample_group_def)

theorem acks_list_packets_in_tens_witness:
  "out (fold (register_packet calm_os 0 0) [1..12] sample_receiver) =
     [Sent_To (sample_addr 1 1) (srtla_ack_pkt [1, 2, 3, 4, 5, 6, 7, 8, 9, 10])]"
proof -
  have "counting (new_connection (sample_addr 1 1) 50)" "noted (new_connection (sample_addr 1 1) 50) = []"
    by (simp_all add: counting_def noted_def new_connection_def const_defs)
  with acks_list_packets_in_tens [OF get_sample_conn, of calm_os "[1..12]"] show ?thesis
    by (simp add: sample_receiver_def init_receiver_def upto_rec1 full_batches.simps RECV_ACK_INT_def)
qed

section \<open>Evaluations\<close>

text \<open>A connection that delivered 1.25 MB in the five seconds since its last evaluation, and one that was
  never evaluated.\<close>

definition busy_conn :: connection where
  "busy_conn = upd_stats (\<lambda>st. st\<lparr>bytes_received := 1250000, packets_received := 1000, last_eval_time := 95000\<rparr>)
     (new_connection (sample_addr 1 1) 50)"

definition fresh_conn :: connection where
  "fresh_conn = upd_stats (\<lambda>st. st\<lparr>bytes_received := 1250000, packets_received := 1000\<rparr>)
     (new_connection (sample_addr 2 1) 50)"

definition busy_group :: connection_group where
  "busy_group = sample_group\<lparr>conns := [busy_conn, fresh_conn]\<rparr>"

lemmas busy_defs = busy_group_def busy_conn_def fresh_conn_def upd_stats_def in_grace_def evaluation_due_def

lemma busy_due: "evaluation_due (Some 100000) busy_group 100" "last_load_balance_eval busy_group < 100"
  "length (conns busy_group) = 2" "conns busy_group ! 0 = busy_conn" "conns busy_group ! 1 = fresh_conn"
  "\<not> in_grace 100 busy_conn" "\<not> in_grace 100 fresh_conn"
  by (simp_all add: busy_defs sample_defs const_defs)

lemma busy_bandwidth: "bandwidth_of 100000 busy_conn = 2000" "bandwidth_of 100000 fresh_conn = 0"
  by code_simp+

lemma busy_minimum: "min_expected 2 = 500"
  by code_simp

theorem error_points_bounded_witness:
  "unat (error_points (stats (conns (evaluate_group (Some 100000) busy_group 100) ! 0))) \<le> 165"
  using error_points_bounded [OF busy_due(1), of 0] busy_due by (simp split: if_splits)

theorem weights_follow_points_witness:
  "map (\<lambda>c. weight_percent (stats c)) (conns (adjust_weights (evaluate_group (Some 100000) busy_group 100) 100)) =
   map (\<lambda>p. if p < 5 then 100 else if p < 10 then 85 else if p < 15 then 70 else if p < 25 then 55 else if p < 40 then 40 else 10)
     (map (\<lambda>c. error_points (stats c)) (conns (evaluate_group (Some 100000) busy_group 100)))"
  using weights_follow_points [OF busy_due(1,2)] by (simp add: comp_def)

theorem first_evaluation_penalised_witness:
  "bytes_received (stats fresh_conn) = 1250000 \<and>
   weight_percent (stats (conns (adjust_weights (evaluate_group (Some 100000) busy_group 100) 100) ! 1)) = WEIGHT_CRITICAL"
  using first_evaluation_penalised [OF busy_due(1,2), of 1 fresh_conn] busy_due
  by (simp add: fresh_conn_def upd_stats_def new_connection_def new_stats_def supports_extended_keepalives_def)

theorem fastest_not_penalised_witness:
  "error_points (stats (conns (evaluate_group (Some 100000) busy_group 100) ! 0)) =
     loss_and_telemetry 100000 100 busy_conn"
proof -
  have "bandwidth_of 100000 d \<le> bandwidth_of 100000 busy_conn" if "d \<in> set (conns busy_group)" for d
    using that busy_bandwidth by (auto simp: busy_group_def)
  then show ?thesis
    using fastest_not_penalised [OF busy_due(1), of 0] by (simp add: busy_due busy_bandwidth busy_minimum)
qed

section \<open>The sender\<close>

definition calm_sender_os :: sender_os where
  "calm_sender_os =
     \<lparr>so_sendto = (\<lambda>t fd n b. n), so_recvfrom = (\<lambda>t fd. Some (replicate 16 0, sample_addr 9 9)),
      so_stack = (\<lambda>t. replicate MTU 0), so_clock = (\<lambda>t. Some (100, 0)), so_stale_time = (\<lambda>t. 0),
      so_socket = (\<lambda>t. 5), so_setsockopt = (\<lambda>t fd. 0), so_bind = (\<lambda>t fd. 0), so_ready = (\<lambda>t fd. True),
      so_lines = (\<lambda>t. Some [''10.0.0.1'']), so_inet_addr = (\<lambda>str. [10, 0, 0, 1]),
      so_random = (\<lambda>t. Some (replicate 128 7)), so_getaddrinfo = (\<lambda>t. Some [sample_addr 8 8])\<rparr>"

text \<open>A link that sent the packets 41 and 42 and one that sent nothing.\<close>

definition busy_link :: conn_t where
  "busy_link = (reg_pkt 42 (reg_pkt 41 (new_link 0 (sample_addr 1 0))))\<lparr>c_fd := 5, c_last_rcvd := 99\<rparr>"

definition free_link :: conn_t where
  "free_link = (new_link 1 (sample_addr 2 0))\<lparr>c_fd := 6, c_last_rcvd := 98\<rparr>"

definition sample_sender :: sender where
  "sample_sender = idle_sender\<lparr>links := [busy_link, free_link], snd_fresh := 2\<rparr>"

lemma wf_sample_links: "wf_link busy_link" "wf_link free_link"
  by (simp_all add: busy_link_def free_link_def reg_pkt_def new_link_def wf_link_def const_defs)

lemma wf_sample_sender: "wf_sender sample_sender"
  using wf_sample_links
  by (simp add: wf_sender_def sample_sender_def idle_sender_def)
    (simp add: busy_link_def free_link_def reg_pkt_def new_link_def sample_addr_def)

lemma busy_link_logged: "slot busy_link 1" "pkt_log busy_link ! 1 = 42" "logged 42 busy_link"
proof -
  show s: "slot busy_link 1" "pkt_log busy_link ! 1 = 42"
    by (simp_all add: slot_def busy_link_def reg_pkt_def new_link_def const_defs)
  then show "logged 42 busy_link" by (auto simp: logged_def)
qed

lemma sample_source_valid: "[10, 0, 0, 1 :: 8 word] \<noteq> replicate 4 255"
proof
  assume "[10, 0, 0, 1 :: 8 word] = replicate 4 255"
  then have "[10, 0, 0, 1 :: 8 word] ! 0 = replicate 4 255 ! 0" by simp
  then show False by simp
qed

lemma sample_start: "\<exists>s. sender_start calm_sender_os = Inr s"
  using sample_source_valid
  by (simp add: sender_start_def setup_conns_def calm_sender_os_def idle_sender_def parse_ip_def conn_find_by_src_def
      snd_random_bytes_def open_listener_def open_socket_def get_link_def new_link_def upd_link_def snd_called_def
      snd_emit_def add_active_fd_def Let_def const_defs)

theorem sender_well_formed_witness:
  "\<exists>s. sender_start calm_sender_os = Inr s \<and> wf_sender s"
proof -
  obtain s where s: "sender_start calm_sender_os = Inr s" using sample_start by blast
  have "full_stack calm_sender_os" by (simp add: full_stack_def calm_sender_os_def)
  then have "wf_sender s" using sender_well_formed [OF s] sender_run.start by blast
  with s show ?thesis by blast
qed

theorem nak_charges_one_link_witness:
  "\<exists>d. register_nak 42 [busy_link, free_link] = [d, free_link] \<and> c_window d = 19900"
proof -
  have "\<not> (\<forall>c\<in>set [busy_link, free_link]. \<not> logged 42 c)" using busy_link_logged(3) by simp
  moreover have "list_all wf_link [busy_link, free_link]" using wf_sample_links by simp
  ultimately obtain xs c ys i where r: "[busy_link, free_link] = xs @ c # ys" "\<forall>d\<in>set xs. \<not> logged 42 d"
    "register_nak 42 [busy_link, free_link] = xs @ c\<lparr>pkt_log := (pkt_log c)[i := -1],
        c_window := max (c_window c - 100) 1000\<rparr> # ys"
    using nak_charges_one_link [of "[busy_link, free_link]" 42] by (metis (no_types, lifting))
  have "xs = []" using r(1,2) busy_link_logged(3) by (cases xs) auto
  with r have "register_nak 42 [busy_link, free_link] =
      [busy_link\<lparr>pkt_log := (pkt_log busy_link)[i := -1], c_window := max (c_window busy_link - 100) 1000\<rparr>, free_link]"
    by simp
  moreover have "c_window busy_link = 20000" by (simp add: busy_link_def reg_pkt_def new_link_def const_defs)
  ultimately show ?thesis by simp
qed

theorem srtla_ack_releases_one_witness:
  "\<exists>d e. register_srtla_ack 42 False [busy_link, free_link] = [d, e] \<and> in_flight_pkts d = 1 \<and> c_window d = 20001 \<and>
     \<not> (\<exists>k < 256. pkt_log d ! k = 42) \<and> in_flight_pkts e = 0 \<and> c_window e = 20001"
proof -
  have b: "in_flight_pkts busy_link = 2" "c_window busy_link = 20000" "c_last_rcvd busy_link = 99"
    "pkt_log busy_link = [41, 42] @ replicate 254 0"
    "in_flight_pkts free_link = 0" "c_window free_link = 20000" "c_last_rcvd free_link = 98"
    by (simp_all add: busy_link_def free_link_def reg_pkt_def new_link_def const_defs eval_nat_numeral)
  have "\<not> (\<forall>c\<in>set [busy_link, free_link]. \<not> logged 42 c)" using busy_link_logged(3) by simp
  moreover have "list_all wf_link [busy_link, free_link]" using wf_sample_links by simp
  ultimately obtain xs c ys i n where r: "[busy_link, free_link] = xs @ c # ys" "\<forall>d\<in>set xs. \<not> logged 42 d" "pkt_log c ! i = 42" "slot c i"
    "n = max 0 (in_flight_pkts c - 1)"
    "register_srtla_ack 42 False [busy_link, free_link] =
       map (\<lambda>c. if c_last_rcvd c = 0 then c else c\<lparr>c_window := min (c_window c + 1) 60000\<rparr>)
         (xs @ c\<lparr>pkt_log := (pkt_log c)[i := -1], in_flight_pkts := n,
            c_window := (if n * 1000 > c_window c then c_window c + 29 else c_window c)\<rparr> # ys)"
    using srtla_ack_releases_one [of "[busy_link, free_link]" 42] by (metis (no_types, lifting))
  have "xs = []" using r(1,2) busy_link_logged(3) by (cases xs) auto
  with r(1) have c: "xs = []" "c = busy_link" "ys = [free_link]" by simp_all
  have "i = 1" using r(3,4) by (auto simp: c b slot_def PKT_LOG_SZ_def nth_Cons nth_append split: nat.splits if_splits)
  then have "\<not> (\<exists>k < 256. (pkt_log busy_link)[i := -1] ! k = 42)"
    by (auto simp: b nth_Cons split: nat.splits)
  with r(5,6) show ?thesis by (simp add: c b)
qed

theorem srt_ack_clears_log_witness:
  "pkt_log (conn_register_srt_ack 42 busy_link) ! 0 = -1 \<and> pkt_log (conn_register_srt_ack 42 busy_link) ! 1 = 42"
  using srt_ack_clears_log [OF wf_sample_links(1), of 42]
  by (simp add: slot_def busy_link_def reg_pkt_def new_link_def const_defs)

theorem packet_takes_best_link_witness:
  "snd_out (snd_handle_srt_data calm_sender_os 3 sample_sender) = [To_Srtla 6 (replicate 16 0)]"
proof -
  have l: "links sample_sender = [busy_link, free_link]" "snd_out sample_sender = []"
    by (simp_all add: sample_sender_def idle_sender_def)
  have t: "\<not> link_timed_out busy_link 100" "\<not> link_timed_out free_link 100" "score busy_link < score free_link" "c_fd free_link = 6"
    by (simp_all add: link_timed_out_def score_def busy_link_def free_link_def reg_pkt_def new_link_def const_defs)
  have "so_recvfrom calm_sender_os (snd_tick sample_sender) 3 = Some (replicate 16 0, sample_addr 9 9)"
    "get_seconds (so_clock calm_sender_os (Suc (snd_tick sample_sender))) = Some 100"
    by (simp_all add: calm_sender_os_def get_seconds_def)
  from packet_takes_best_link [OF wf_sample_sender this(1) _ this(2)]
  obtain xs c ys where c: "[busy_link, free_link] = xs @ c # ys" "best 100 xs c ys"
    "snd_out (snd_handle_srt_data calm_sender_os 3 sample_sender) = [To_Srtla (c_fd c) (replicate 16 0)]"
    using t(1) by (auto simp: l MTU_def)
  have "c = free_link" using c(1,2) t(1-3) by (cases xs) (auto simp: best_def Cons_eq_append_conv)
  with c(3) t(4) show ?thesis by simp
qed

theorem response_delivered_witness:
  "\<exists>s'. send_response calm_os 5 (http_response ''up'') sample_receiver = Some s' \<and>
     delivered 5 (out s') = http_response ''up''"
proof -
  have "0 < fst (os_http_send calm_os t 5 rest)" if "rest \<noteq> []" for t rest
    using that by (simp add: calm_os_def)
  then have "case os_http_send calm_os t 5 rest of (ret, interrupted) \<Rightarrow> 0 < ret \<or> interrupted \<and> t < 0"
    if "rest \<noteq> []" for t rest
    using that by (metis (no_types, lifting) case_prodI2 fst_conv)
  from response_delivered [OF this, where body = "''up''" and s = sample_receiver]
  show ?thesis by (simp add: sample_receiver_def init_receiver_def delivered_def)
qed

section \<open>Data, loss reports and bonding\<close>

theorem srtla_ack_roundtrip_witness:
  "\<exists>s'. hears calm_sender_os (srtla_ack_pkt [41, 42]) 200 busy_link sample_sender = Inr s' \<and> snd_out s' = []"
proof -
  have "length (srtla_ack_pkt [41, 42]) \<le> MTU" by (simp add: srtla_ack_pkt_def MTU_def)
  from srtla_ack_roundtrip [OF this, of calm_sender_os 200 busy_link sample_sender]
  show ?thesis by (auto simp: sample_sender_def idle_sender_def)
qed

definition sample_nak_header :: "byte list" where
  "sample_nak_header = [0x80, 0x03] @ replicate 14 0"

lemma sample_nak_header: "length sample_nak_header = 16" "be16 sample_nak_header 0 = SRT_TYPE_NAK"
  by (simp_all add: sample_nak_header_def be16_def SRT_TYPE_NAK_def)

theorem loss_report_charged_witness:
  "\<exists>s'. hears calm_sender_os (nak_packet sample_nak_header [Lost_One 42, Lost_Range 50 52]) 200 free_link sample_sender = Inr s' \<and>
     length (snd_out s') = 1"
proof -
  have "length (nak_packet sample_nak_header [Lost_One 42, Lost_Range 50 52]) \<le> MTU"
    by (simp add: nak_packet_def sample_nak_header MTU_def)
  from loss_report_charged [OF sample_nak_header this, of calm_sender_os 200 free_link sample_sender]
  show ?thesis by (auto simp: sample_sender_def idle_sender_def)
qed

theorem loss_range_overflow_witness:
  "hears calm_sender_os (nak_packet sample_nak_header [Lost_Range 1 0x7FFFFFFF]) 200 free_link sample_sender = Inl Signed_Overflow"
  by (rule loss_range_overflow [OF sample_nak_header]) simp_all

definition seen_as :: "conn_t \<Rightarrow> sockaddr_storage" where
  "seen_as c = sample_addr (7 + of_nat (cptr c)) 1"

lemma sample_half_id_free:
  assumes "take (SRTLA_ID_LEN div 2) i = take (SRTLA_ID_LEN div 2) (srtla_id sample_sender)"
  shows "find_group_by_id i (groups sample_receiver) = None"
proof -
  have "i ! 0 = take (SRTLA_ID_LEN div 2) i ! 0" by (simp add: SRTLA_ID_LEN_def)
  then have "i ! 0 = 0" unfolding assms by (simp add: sample_sender_def idle_sender_def SRTLA_ID_LEN_def)
  moreover have "gid sample_group ! 0 = 1" "gid ghost_group ! 0 = 3"
    by (simp_all add: sample_group_def ghost_group_def new_group_def const_defs nth_append)
  ultimately have "\<not> (\<forall>k < 256. gid sample_group ! k = i ! k)" "\<not> (\<forall>k < 256. gid ghost_group ! k = i ! k)"
    by (auto intro!: exI [of _ 0])
  then show ?thesis
    by (auto simp: find_group_by_id_def sample_receiver_def constant_time_compare_def ctc_diff_zero SRTLA_ID_LEN_def)
qed

section \<open>Upkeep and start\<close>

theorem sender_descriptors_balance_witness:
  "\<exists>s. sender_start calm_sender_os = Inr s \<and> count_list (snd_opened_in (snd_out s)) 5 =
     count_list (snd_closed_in (snd_out s)) 5 + count_list (listenfd s # map c_fd (links s)) 5"
proof -
  obtain s where s: "sender_start calm_sender_os = Inr s" using sample_start by blast
  have "full_stack calm_sender_os" by (simp add: full_stack_def calm_sender_os_def)
  from sender_descriptors_balance [OF s this sender_run.start, of 5] s show ?thesis by auto
qed

theorem housekeeping_outcome_witness:
  "\<exists>s'. connection_housekeeping calm_sender_os sample_sender = Inr s' \<and> active_connections s' = 2 \<and>
     to_srtla s' = [To_Srtla 5 (put_be16 SRTLA_TYPE_KEEPALIVE), To_Srtla 6 (put_be16 SRTLA_TYPE_KEEPALIVE)]"
proof -
  have ms: "get_ms (so_clock calm_sender_os (snd_tick sample_sender)) = Some 100000" "last_ran sample_sender + 1000 \<le> 100000"
    by (simp_all add: calm_sender_os_def get_ms_def sample_sender_def idle_sender_def)
  have l: "links sample_sender = [busy_link, free_link]" "to_srtla sample_sender = []"
    by (simp_all add: sample_sender_def idle_sender_def to_srtla_def)
  have t: "uint (100000 div 1000 :: u64) = 100" by simp
  have a: "active 100 busy_link" "active 100 free_link" "c_fd busy_link = 5" "c_fd free_link = 6"
    "c_last_sent busy_link = 0" "c_last_sent free_link = 0"
    by (simp_all add: active_def link_timed_out_def busy_link_def free_link_def reg_pkt_def new_link_def const_defs)
  then have u: "upkeep 100 p i busy_link = [To_Srtla 5 (put_be16 SRTLA_TYPE_KEEPALIVE)]"
    "upkeep 100 p i free_link = [To_Srtla 6 (put_be16 SRTLA_TYPE_KEEPALIVE)]" for p i
    by (simp_all add: upkeep_def active_def IDLE_TIME_def)
  show ?thesis
    using housekeeping_outcome [OF wf_sample_sender ms] a u unfolding l t
    by (cases "connection_housekeeping calm_sender_os sample_sender") simp_all
qed

definition calm_startup_os :: startup_os where
  "calm_startup_os = \<lparr>st_getaddrinfo = (\<lambda>t host port. Some [sample_addr 9 9]), st_socket = (\<lambda>t family. int t),
     st_setsockopt = (\<lambda>t fd. 0), st_connect = (\<lambda>t fd a. 0), st_send = (\<lambda>t fd b. int (length b)), st_recv = (\<lambda>t fd. 64),
     st_epoll_create = (\<lambda>t. int t), st_fcntl = (\<lambda>t fd. 0), st_bind = (\<lambda>t fd. 0), st_listen = (\<lambda>t fd. 0),
     st_epoll_add = (\<lambda>t fd. 0), st_time = (\<lambda>t. 5)\<rparr>"

definition fresh_startup :: startup where
  "fresh_startup = \<lparr>st_tick = 3, st_out = []\<rparr>"

definition sample_args :: receiver_args where
  "sample_args = \<lparr>arg_srt_hostname = ''localhost'', arg_srt_port = 4001, arg_metrics_port = 0,
     arg_metrics_bind = ''127.0.0.1'', arg_metrics_detail = False\<rparr>"

lemma sample_resolve: "\<exists>s. resolve_srt_address calm_startup_os host port a fresh_startup = (1, sample_addr 9 9, s)"
  by (simp add: resolve_srt_address_def calm_startup_os_def fresh_startup_def try_address_def probe_options_def st_call_def
      st_open_def st_called_def st_emit_def hs_packet_def Let_def srt_handshake_size_def)

theorem startup_descriptors_witness:
  "\<exists>sock r ex s. start_receiver calm_startup_os sample_args fresh_startup = (Some (sock, r, ex), s) \<and>
     wf_receiver r \<and> count_list (st_opened_in (st_out s)) sock = Suc (count_list (st_closed_in (st_out s)) sock)"
proof -
  obtain s1 where s1: "resolve_srt_address calm_startup_os (arg_srt_hostname sample_args)
      (nat_to_string (unat (arg_srt_port sample_args))) zero_addr fresh_startup = (1, sample_addr 9 9, s1)"
    using sample_resolve by blast
  have "\<exists>ex s. start_receiver calm_startup_os sample_args fresh_startup =
      (Some (int (Suc (st_tick s1)), init_receiver (sample_addr 9 9) (int (st_tick s1)), ex), s) \<and> listen_fd ex = -1"
    unfolding start_receiver_def s1
    by (simp add: configure_srtla_sock_def set_socket_buffers_def start_exporter_def st_open_def st_call_def st_called_def
        st_emit_def calm_startup_os_def sample_args_def Let_def)
  then obtain ex s where s: "start_receiver calm_startup_os sample_args fresh_startup =
      (Some (int (Suc (st_tick s1)), init_receiver (sample_addr 9 9) (int (st_tick s1)), ex), s)" "listen_fd ex = -1" by blast
  have "\<forall>a\<in>set as. ss_family a = AF_INET \<or> ss_family a = AF_INET6"
    if "st_getaddrinfo calm_startup_os t host port = Some as" for t host port as
    using that by (auto simp: calm_startup_os_def sample_addr_def)
  from startup_descriptors [OF s(1) _ _ this, of "int (Suc (st_tick s1))"] s
  show ?thesis by (auto simp: fresh_startup_def init_receiver_def)
qed

section \<open>End to end\<close>

text \<open>The receiver sees the links of the sample sender as the connections of the streaming group.\<close>

definition seen_fd :: "int \<Rightarrow> sockaddr_storage" where
  "seen_fd fd = (if fd = 5 then sample_addr 1 1 else sample_addr 2 1)"

lemma sample_fds: "c_fd busy_link = 5" "c_fd free_link = 6" "cptr busy_link = 0" "cptr free_link = 1"
  by (simp_all add: busy_link_def free_link_def reg_pkt_def new_link_def)

lemma sample_usable: "t \<le> 102 \<Longrightarrow> usable t sample_sender = [5, 6]"
  using sample_fds by (simp add: usable_def sample_sender_def link_timed_out_def busy_link_def free_link_def SND_CONN_TIMEOUT_def)

lemma sample_carries: "carries 0 9 {sample_addr 1 1, sample_addr 2 1} sample_receiver"
proof -
  have "srt_sock sample_group = 9" "list_all counting (conns sample_group)"
    "(addr_key \<circ> address) ` set (conns sample_group) = {addr_key (sample_addr 1 1), addr_key (sample_addr 2 1)}"
    by (simp_all add: sample_group_def counting_def new_connection_def const_defs)
  then show ?thesis using wf_sample_receiver get_sample_group by (simp add: carries_def)
qed

definition sample_answer :: "byte list" where
  "sample_answer = [0x80, 0x00] @ replicate 14 0"

lemma sample_first_iteration:
  "\<exists>s0 s. sender_start (calm_sender_os\<lparr>so_ready := \<lambda>t fd. False\<rparr>) = Inr s0 \<and>
     sender_iteration (calm_sender_os\<lparr>so_ready := \<lambda>t fd. False\<rparr>) s0 = Inr s"
  using sample_source_valid
  by (simp add: sender_start_def setup_conns_def calm_sender_os_def idle_sender_def parse_ip_def conn_find_by_src_def
      snd_random_bytes_def open_listener_def open_socket_def get_link_def new_link_def upd_link_def snd_called_def
      snd_emit_def add_active_fd_def set_srtla_addr_def sender_iteration_def connection_housekeeping_def get_ms_def
      housekeep_link_def link_timed_out_def send_reg2_def send_srtla_def check_all_failed_def serve_ready_def Let_def const_defs)

theorem sender_counters_bounded_witness:
  "\<exists>s0 s. sender_start (calm_sender_os\<lparr>so_ready := \<lambda>t fd. False\<rparr>) = Inr s0 \<and>
     sender_iteration (calm_sender_os\<lparr>so_ready := \<lambda>t fd. False\<rparr>) s0 = Inr s \<and>
     (\<forall>c\<in>set (links s). in_flight_pkts c \<le> 257)"
proof -
  let ?os = "calm_sender_os\<lparr>so_ready := \<lambda>t fd. False\<rparr>"
  obtain s0 s where s: "sender_start ?os = Inr s0" "sender_iteration ?os s0 = Inr s" using sample_first_iteration by blast
  have "full_stack ?os" by (simp add: full_stack_def calm_sender_os_def)
  moreover have "counted_run ?os 1 s0 (if relays_ack s0 s then 0 else Suc 0) s"
    using s(2) counted_run.start [of ?os 1 s0] by (auto intro: counted_run.intros)
  ultimately have "\<forall>c\<in>set (links s). in_flight_pkts c \<le> 256 + int (if relays_ack s0 s then 0 else Suc 0)"
    using sender_counters_bounded [OF s(1)] by fastforce
  then have "\<forall>c\<in>set (links s). in_flight_pkts c \<le> 257" by (auto split: if_splits)
  with s show ?thesis by blast
qed

end
