(* ===== verification/Spec2Isabelle.thy ===== *)
theory Spec2Isabelle
  imports Witnesses
begin

text \<open>
  SRTLA, link aggregation for SRT: a model of the two programs of the repository and of what they
  achieve together.

  \<^bold>\<open>The programs.\<close> \<open>srtla_send\<close> (\<open>src/src/sender.cpp\<close>) takes the datagrams of an SRT caller and spreads them
  over several links, one UDP socket per source address. \<open>srtla_rec\<close> (\<open>src/src/receiver_main.cpp\<close> and the
  directories beside it) collects the datagrams of all links of a sender in a connection group, forwards
  them on one socket per group to an SRT server, sends the answers of the server back, acknowledges
  data packets per link, rates the links, and serves metrics over HTTP. A sender registers a group
  with a REG1, gets its identifier in a REG2, joins each link with a REG2 and has it confirmed by a REG3.

  \<^bold>\<open>How the code is modelled.\<close> Both programs are single-threaded; each is a state that its functions
  transform. The record \<open>receiver\<close> holds the group table, the rate limiter, the counters and the static
  variables, the record \<open>sender\<close> the global variables of \<open>sender.cpp\<close>. A group or a link that the code reaches
  through a pointer has an identity (\<open>gptr\<close>, \<open>cptr\<close>) that is never reused, so that a pointer to a freed
  object is an identity no longer in the table; a connection of a group is given by its position. System
  calls are parameters (\<open>os\<close>, \<open>sender_os\<close>, \<open>startup_os\<close>): the answer to call number \<open>tick\<close> is arbitrary
  unless a theorem says otherwise, so that what is proved of all runs holds for every kernel and
  every peer. What the programs do to the outside is appended to \<open>out\<close>, \<open>snd_out\<close> or \<open>st_out\<close>: a datagram when the
  call that sends it is made, whether or not it succeeds, a descriptor or a registration with epoll when the
  call has succeeded, and of a response over HTTP the bytes that the kernel took. Exceptions, \<open>exit\<close>, accesses to freed objects, reads out of bounds,
  signed overflows and calls that never return are values of the types \<open>failure\<close> and \<open>sender_failure\<close>.
  Counters, sequence numbers, time stamps in milliseconds and packet fields are words of their
  width and wrap around; \<open>time_t\<close> and descriptors are unbounded integers, because the clock and the kernel bound them,
  and so are the \<open>int\<close> counters of the links of the sender, which stay in range in every run that keeps receiving
  acknowledgements of the SRT server (\<open>sender_counters_bounded\<close>). Doubles are rationals with the rounding of IEEE
  binary64 written out and an unbounded exponent. One quotient of the evaluator can be infinite, when a sum of
  counters wraps around to zero; infinity is then a number above every finite double.

  \<^bold>\<open>The theories of the receiver.\<close>
  \<^item> \<open>Prelude\<close>: machine types, big-endian fields. \<open>Wire\<close>: \<open>common.h\<close>, \<open>common.c\<close>, \<open>pad_sendto.h\<close>,
    \<open>forward_policy.h\<close> and the comparison of \<open>network_utils.cpp\<close>; an extended keepalive is parsed back field by field.
  \<^item> \<open>Nak_Dedup\<close>, \<open>Auth_Limiter\<close>, \<open>Counters\<close>, \<open>Double\<close>: the utilities. A NAK is accepted at most twice; a source
    is blocked exactly by the fifth failure in a window, as a function of the times of its failures, and the cleanup of the limiter is unobservable. Each of the
    two contracts is a locale, interpreted on the operations of the code.
  \<^item> \<open>Connection\<close>, \<open>Group\<close>, \<open>Receiver_State\<close>, \<open>Registry\<close>: connections with their statistics, groups,
    the state, and \<open>connection_registry.cpp\<close> with its lookups, its eviction and its cleanup. The locales
    \<open>group_update\<close>, \<open>conn_update\<close> and \<open>stats_update\<close> say what an update of a group, a connection or its
    statistics must keep, and are interpreted on the updates the handlers make.
  \<^item> \<open>Quality\<close> and \<open>Scoring\<close>: \<open>quality_evaluator.cpp\<close>, \<open>load_balancer.cpp\<close>; bounds of error points, weights that follow
    them, and when bandwidth is and is not penalised.
  \<^item> \<open>Lifecycle\<close>: the abstract specification of the receiver, a group that enters the table, is updated, gets a
    socket and leaves, with the counters and descriptors this moves; \<open>view\<close> maps a state to it and \<open>refines\<close> is the
    simulation that every handler is proved to respect.
  \<^item> \<open>Srt_Handler\<close>, \<open>Srtla_Handler\<close>, \<open>Exporter\<close>, \<open>Receiver\<close>: \<open>protocol/\<close>, \<open>metrics/prometheus.cpp\<close> and the event
    loop. From the refinement follow the invariant of all reachable states, the balance of the
    counters and of the descriptors.
  \<^item> \<open>Cleanup\<close>: what a call of \<open>cleanup_inactive\<close> removes, keeps and sends.
  \<^item> \<open>Isolation\<close>, \<open>Client_Packets\<close>, \<open>Handshake\<close>, \<open>Dangling\<close>, \<open>Scrape\<close>: what single operations achieve: a datagram
    touches its own group only; data, acknowledgements and keepalives; the registration handshake; when
    the raw pointers in epoll events are safe and how they are not; what a scrape reads back.
  \<^item> \<open>Startup\<close>: \<open>main\<close> up to the loop, \<open>resolve_srt_address\<close>, \<open>Exporter::start\<close>; the descriptors and the server
    address a receiver enters its loop with.

  \<^bold>\<open>The theories of the sender.\<close>
  \<^item> \<open>Sender\<close>: all of \<open>sender.cpp\<close>, \<open>sender_start\<close> up to the loop and \<open>sender_run\<close> with the hang-up signal between iterations.
  \<^item> \<open>Sender_Invariant\<close>, \<open>Sender_Descriptors\<close>: the invariant of all reachable states and the balance of descriptors, over the
    locales \<open>link_update\<close> and \<open>quiet_update\<close> of the updates of a link.
  \<^item> \<open>Sender_Links\<close>, \<open>Sender_Packets\<close>, \<open>Sender_Upkeep\<close>: the choice of a link, acknowledgements, loss reports, housekeeping.
  \<^item> \<open>Sender_Counters\<close>: how far the counters of a link can grow in a run, given how often the SRT server acknowledges. The locales \<open>link_property\<close> and \<open>packet_property\<close> carry a
    predicate of links through every function of the program, from its laws for the updates of a single link.

  \<^bold>\<open>Both programs together.\<close> \<open>Bonding\<close> and \<open>End_To_End\<close> feed each program with what the other sends; \<open>hears\<close> is a
  datagram that a link of the sender receives, \<open>offers\<close> one of the SRT caller, \<open>arrivals\<close> what reaches the receiver. This
  theory states what they achieve together: all links of a sender become connections of one group; the packets of the SRT caller
  reach the SRT server once each, unchanged and in order, whichever links they take; the answers of the server
  reach the caller; keepalives keep idle links alive on both sides. Loss between the programs is not modelled: these
  theorems are about datagrams that arrive.

  \<open>Witnesses\<close> and this theory apply each property with hypotheses to concrete states, kernels and packets.

  \<^bold>\<open>Bounds.\<close> The searches of the packet log of the sender take \<open>PKT_LOG_SZ\<close> as fuel; they end earlier, since
  they visit each position at most once (\<open>find_in_log_eq\<close>, \<open>clear_acked_eq\<close>). \<open>nak_ids\<close> takes \<open>MTU\<close> as fuel, more than the number of
  words of a packet. The loops of the exporter, which may not end, are \<open>partial_function\<close>s whose result \<open>None\<close> is \<open>No_Return\<close>;
  \<open>response_delivered\<close> proves that they end when the kernel makes progress. The main loops
  are the relations \<open>run\<close> and \<open>sender_run\<close>, any number of iterations; all other loops are total functions.

  \<^bold>\<open>Not modelled.\<close> Option parsing (a library; its results are parameters), log lines other than the
  throttled one of \<open>log_forward_drop\<close>, \<open>getaddrinfo\<close>, \<open>inet_addr\<close> and the calls of the kernel (parameters), the text in the
  socket-information files (the port and the addresses are recorded), the limit \<open>FD_SETSIZE\<close> on the descriptors of
  \<open>select\<close>, the destructors that run when a process ends, and the tests, build files and documents.
\<close>

section \<open>The links of a sender become one group\<close>

text \<open>C4. The two programs bond all links. Let a link of a sender that has no connection receive the answer of a receiver
  that knows no group of it. The REG1 it sends back, the REG2 the receiver answers, the REG2
  the sender then broadcasts and the REG3s of the receiver fit together: the receiver ends up with
  one group whose connections are exactly the open links of the sender in their order, at whatever
  addresses it sees them, and the sender with the identifier of that group and all these links active.\<close>

theorem bonding_established:
  fixes addr_of :: "conn_t \<Rightarrow> sockaddr_storage"
  assumes snd: "wf_sender s" "active_connections s = 0" "pending_reg2_conn s = None" "pending_reg_timeout s < ts"
    and live: "live = filter (\<lambda>d. 0 \<le> c_fd d) (links s)" "c \<in> set live" "length live \<le> MAX_CONNS_PER_GROUP"
      "distinct (map (\<lambda>d. addr_key (addr_of d)) live)"
    and rec: "wf_receiver r" "replies_sent os" "length (groups r) < MAX_GROUPS" "\<not> is_blocked (addr_of c) now (limiter r)"
      "\<forall>d\<in>set live. find_by_address (addr_of d) (groups r) = None"
      "\<forall>i. take (SRTLA_ID_LEN div 2) i = take (SRTLA_ID_LEN div 2) (srtla_id s) \<longrightarrow> find_group_by_id i (groups r) = None"
  shows "\<exists>s1 r1 g s2 r2 s3. let reg1 = put_be16 SRTLA_TYPE_REG1 @ srtla_id s; reg2 = put_be16 SRTLA_TYPE_REG2 @ gid g;
        reg3 = pad32 (put_be16 SRTLA_TYPE_REG3)
      in hears sos (pad32 (put_be16 SRTLA_TYPE_REG_NGP)) ts c s = Inr s1 \<and>
         snd_out s1 = snd_out s @ [To_Srtla (c_fd c) reg1] \<and>
         process_single_packet os reg1 (addr_of c) now r = Inr r1 \<and> groups r1 = groups r @ [g] \<and>
         out r1 = out r @ [Sent_To (addr_of c) reg2] \<and>
         hears sos reg2 ts2 c s1 = Inr s2 \<and>
         snd_out s2 = snd_out s1 @ map (\<lambda>d. To_Srtla (c_fd d) reg2) live \<and>
         process_batch os now2 (map (\<lambda>d. (addr_of d, reg2)) live) r1 = Inr r2 \<and>
         (\<forall>k < length live. find_by_address (addr_of (live ! k)) (groups r2) = Some (gptr g, Some k) \<and>
            Sent_To (addr_of (live ! k)) reg3 \<in> set (drop (length (out r1)) (out r2))) \<and>
         (\<exists>g2. groups r2 = groups r @ [g2] \<and> gptr g2 = gptr g \<and> map address (conns g2) = map addr_of live) \<and>
         hear_each sos reg3 ts3 live s2 = Inr s3 \<and> has_connected s3 \<and> srtla_id s3 = gid g \<and>
         active_connections s3 = int (length live) \<and>
         (\<forall>d\<in>set (links s3). 0 \<le> c_fd d \<longrightarrow> c_last_rcvd d = ts3)"
proof -
  have c: "0 \<le> c_fd c" and len: "length (srtla_id s) = SRTLA_ID_LEN"
    using live(1,2) snd(1) by (auto simp: wf_sender_def)
  let ?reg1 = "put_be16 SRTLA_TYPE_REG1 @ srtla_id s"
  obtain s1 where s1: "hears sos (pad32 (put_be16 SRTLA_TYPE_REG_NGP)) ts c s = Inr s1"
    "snd_out s1 = snd_out s @ [To_Srtla (c_fd c) ?reg1]" "pending_reg2_conn s1 = Some (cptr c)"
    "srtla_id s1 = srtla_id s" "links s1 = links s" "active_connections s1 = 0"
    using ngp_heard [OF c snd(2-4)] by blast
  have reg1: "is_srtla_reg1 ?reg1 (int (length ?reg1))" "drop 2 ?reg1 = srtla_id s"
    using len by (simp_all add: is_srtla_reg1_def get_srt_type_def be16_put_be16 const_defs)
  have new: "find_by_address (addr_of c) (groups r) = None" using rec(5) live(2) by blast
  obtain g r1 where r1: "process_single_packet os ?reg1 (addr_of c) now r = Inr r1" "groups r1 = groups r @ [g]"
    "out r1 = out r @ [Sent_To (addr_of c) (reg2_packet g)]" "length (gid g) = 256"
    "take 128 (gid g) = take 128 (drop 2 ?reg1)" "conns g = []" "\<forall>h\<in>set (groups r). gptr h \<noteq> gptr g"
    by (rule reg1_admitted [OF rec(1-3) reg1(1) new rec(4)])
  have id: "length (gid g) = SRTLA_ID_LEN" "take (SRTLA_ID_LEN div 2) (gid g) = take (SRTLA_ID_LEN div 2) (srtla_id s1)"
    using r1(4,5) by (simp_all add: reg1(2) s1(4) SRTLA_ID_LEN_def)
  obtain s2 where s2: "hears sos (reg2_packet g) ts2 c s1 = Inr s2" "srtla_id s2 = gid g" "links s2 = links s"
    "active_connections s2 = 0" "snd_out s2 = snd_out s1 @ map (\<lambda>d. To_Srtla (c_fd d) (reg2_packet g)) live"
    using reg2_heard [OF s1(3) id, of sos ts2] unfolding s1(5,6) live(1) [symmetric] reg2_packet_def by blast
  have free: "find_group_by_id (gid g) (groups r) = None" using id(2) rec(6) by (simp add: s1(4))
  obtain r2 where r2: "process_batch os now2 (map (\<lambda>a. (a, reg2_packet g)) (map addr_of live)) r1 = Inr r2"
    "\<forall>k < length live. find_by_address (map addr_of live ! k) (groups r2) = Some (gptr g, Some k) \<and>
       Sent_To (map addr_of live ! k) (pad32 (put_be16 SRTLA_TYPE_REG3)) \<in> set (drop (length (out r1)) (out r2))"
    "\<exists>g2. groups r2 = groups r @ [g2] \<and> gptr g2 = gptr g \<and> map address (conns g2) = map addr_of live"
    using joined [OF rec(2) r1(7) free r1(4) _ _ r1(2,6), of "map addr_of live" now2] live(3,4) rec(5)
    by (auto simp: comp_def)
  obtain s3 where s3: "hear_each sos (pad32 (put_be16 SRTLA_TYPE_REG3)) ts3 live s2 = Inr s3" "has_connected s3"
    "active_connections s3 = int (length live)" "srtla_id s3 = gid g"
    "links s3 = map (\<lambda>d. if cptr d \<in> cptr ` set live then d\<lparr>c_last_rcvd := ts3\<rparr> else d) (links s)"
    using reg3_each [of sos ts3 live s2] live(2) s2(2-4) by auto
  have "\<forall>d\<in>set (links s3). 0 \<le> c_fd d \<longrightarrow> c_last_rcvd d = ts3"
    by (auto simp: s3(5) live(1))
  then show ?thesis
    unfolding Let_def reg2_packet_def [symmetric]
    using s1(1,2) r1(1-3) s2(1,5) r2 s3(1-4)
    by (intro exI [of _ s1] exI [of _ r1] exI [of _ g] exI [of _ s2] exI [of _ r2] exI [of _ s3]) (simp add: comp_def)
qed

theorem bonding_established_witness:
  "\<exists>s1 (r1 :: receiver) g s2 (r2 :: receiver) s3. hears calm_sender_os (pad32 (put_be16 SRTLA_TYPE_REG_NGP)) 200 busy_link sample_sender = Inr s1 \<and>
     groups r1 = groups sample_receiver @ [g] \<and>
     hears calm_sender_os (put_be16 SRTLA_TYPE_REG2 @ gid g) 201 busy_link s1 = Inr s2 \<and>
     find_by_address (seen_as free_link) (groups r2) = Some (gptr g, Some 1) \<and>
     hear_each calm_sender_os (pad32 (put_be16 SRTLA_TYPE_REG3)) 202 [busy_link, free_link] s2 = Inr s3 \<and>
     active_connections s3 = 2"
proof -
  have l: "[busy_link, free_link] = filter (\<lambda>d. 0 \<le> c_fd d) (links sample_sender)"
    "cptr busy_link = 0" "cptr free_link = 1"
    by (simp_all add: sample_sender_def busy_link_def free_link_def reg_pkt_def new_link_def)
  have seen: "seen_as busy_link = sample_addr 7 1" "seen_as free_link = sample_addr 8 1" by (simp_all add: seen_as_def l)
  have keys: "distinct (map (\<lambda>d. addr_key (seen_as d)) [busy_link, free_link])"
    by (simp add: seen) (simp add: addr_key_def sample_addr_def bytes_of_def upt_rec const_defs)
  have new: "\<forall>d\<in>set [busy_link, free_link]. find_by_address (seen_as d) (groups sample_receiver) = None"
    using seen find_sample_addr by simp
  have free: "\<forall>i. take (SRTLA_ID_LEN div 2) i = take (SRTLA_ID_LEN div 2) (srtla_id sample_sender) \<longrightarrow>
      find_group_by_id i (groups sample_receiver) = None"
    using sample_half_id_free by blast
  have r: "replies_sent calm_os" "length (groups sample_receiver) < MAX_GROUPS"
    "\<not> is_blocked (seen_as busy_link) 100 (limiter sample_receiver)"
    by (simp_all add: sample_receiver_def init_receiver_def is_blocked_def replies_sent_def calm_os_def MAX_GROUPS_def)
  have s: "active_connections sample_sender = 0" "pending_reg2_conn sample_sender = None" "pending_reg_timeout sample_sender < 200"
    "busy_link \<in> set [busy_link, free_link]" "length [busy_link, free_link] \<le> MAX_CONNS_PER_GROUP"
    by (simp_all add: sample_sender_def idle_sender_def MAX_CONNS_PER_GROUP_def)
  note bonding_established [OF wf_sample_sender s(1-3) l(1) s(4,5) keys wf_sample_receiver r new free,
      unfolded Let_def, where ?ts2.0 = 201 and ?ts3.0 = 202 and ?now2.0 = 101 and sos = calm_sender_os]
  then obtain s1 and r1 :: receiver and g s2 and r2 :: receiver and s3 where
    "hears calm_sender_os (pad32 (put_be16 SRTLA_TYPE_REG_NGP)) 200 busy_link sample_sender = Inr s1"
    "groups r1 = groups sample_receiver @ [g]"
    "hears calm_sender_os (put_be16 SRTLA_TYPE_REG2 @ gid g) 201 busy_link s1 = Inr s2"
    "\<forall>k < length [busy_link, free_link]. find_by_address (seen_as ([busy_link, free_link] ! k)) (groups r2) = Some (gptr g, Some k) \<and>
       Sent_To (seen_as ([busy_link, free_link] ! k)) (pad32 (put_be16 SRTLA_TYPE_REG3)) \<in> set (drop (length (out r1)) (out r2))"
    "hear_each calm_sender_os (pad32 (put_be16 SRTLA_TYPE_REG3)) 202 [busy_link, free_link] s2 = Inr s3"
    "active_connections s3 = int (length [busy_link, free_link])"
    by (elim exE conjE) (rule that)
  then show ?thesis by (intro exI [of _ s1] exI [of _ r1] exI [of _ g] exI [of _ s2] exI [of _ r2] exI [of _ s3]) auto
qed

section \<open>The stream and its answers\<close>

text \<open>C6. The caller's stream reaches the server, whichever links it takes. Let the sender be handed packets at times when
  some link was heard from in the last four seconds, and let every such link be a connection of the group \<open>p\<close> at the address
  where the receiver sees it. Let the packets have 16 to 1500 bytes and be neither NAKs nor SRTLA registrations or keepalives, and let
  the sends succeed. Then the socket of the group to the SRT server is sent exactly these packets: each once, unchanged and in the order of the caller, while neither
  program fails or leaves its invariant.\<close>

theorem stream_delivered:
  assumes "wf_sender s" "carries p fd as r" and fd: "0 \<le> fd"
    and sent: "\<And>t b. os_send os t fd b = (int (length b), err)"
    and "\<forall>(data, t, now)\<in>set ps. plain_data data \<and> length data \<le> MTU \<and>
      usable t s \<noteq> [] \<and> seen ` set (usable t s) \<subseteq> as"
  shows "\<exists>s' r'. stream sos os seen from ps s r = Inr (s', r') \<and>
    to_server fd (out r') = to_server fd (out r) @ map fst ps \<and> wf_sender s' \<and> carries p fd as r'"
  using assms(1,2,5)
proof (induction ps arbitrary: s r)
  case Nil
  then show ?case by simp
next
  case (Cons q ps)
  obtain data t now where q: "q = (data, t, now)" by (rule prod_cases3)
  have data: "plain_data data" "length data \<le> MTU" "usable t s \<noteq> []" "seen ` set (usable t s) \<subseteq> as"
    using Cons.prems(3) by (simp_all add: q)
  define s1 where "s1 = offers sos data from t s"
  obtain l where l: "l \<in> set (usable t s)" "snd_out s1 = snd_out s @ [To_Srtla l data]" "wf_sender s1"
    "\<And>u. usable u s1 = usable u s"
    using packet_offered [OF Cons.prems(1) data(2,3)] unfolding s1_def by blast
  have "seen l \<in> as" using l(1) data(4) by blast
  then obtain r1 where r1: "process_batch os now [(seen l, data)] r = Inr r1" "carries p fd as r1"
    "to_server fd (out r1) = to_server fd (out r) @ [data]"
    using packet_carried [OF Cons.prems(2) _ fd data(1,2) sent] by blast
  have "\<forall>(data, t, now)\<in>set ps. plain_data data \<and> length data \<le> MTU \<and> usable t s1 \<noteq> [] \<and> seen ` set (usable t s1) \<subseteq> as"
    using Cons.prems(3) by (simp add: l(4))
  from Cons.IH [OF l(3) r1(2) this] obtain s' r' where
    "stream sos os seen from ps s1 r1 = Inr (s', r')" "to_server fd (out r') = to_server fd (out r1) @ map fst ps"
    "wf_sender s'" "carries p fd as r'" by blast
  then show ?case using r1(1,3) by (simp add: q s1_def [symmetric] l(2) Let_def del: process_batch.simps)
qed

theorem stream_delivered_witness:
  "\<exists>s' r'. stream calm_sender_os calm_os seen_fd (sample_addr 9 9)
       [(sample_data, 100, 100), (1 # sample_data, 101, 101)] sample_sender sample_receiver = Inr (s', r') \<and>
     to_server 9 (out r') = [sample_data, 1 # sample_data]"
proof -
  have sent: "os_send calm_os t 9 b = (int (length b), 0)" for t b by (simp add: calm_os_def)
  have "plain_data (1 # sample_data)"
    by (simp add: plain_data_def sample_data_def is_srtla_reg1_def is_srtla_reg2_def is_srtla_keepalive_def
        is_srt_nak_packet_def get_srt_type_def be16_def const_defs)
  then have "\<forall>(data, t, now)\<in>set [(sample_data, 100, 100 :: time_t), (1 # sample_data, 101, 101)].
      plain_data data \<and> length data \<le> MTU \<and> usable t sample_sender \<noteq> [] \<and>
      seen_fd ` set (usable t sample_sender) \<subseteq> {sample_addr 1 1, sample_addr 2 1}"
    using sample_types(7,8) by (simp add: sample_usable seen_fd_def MTU_def)
  from stream_delivered [OF wf_sample_sender sample_carries _ sent this, of calm_sender_os "sample_addr 9 9"]
  show ?thesis by (auto simp: sample_receiver_def init_receiver_def)
qed

text \<open>C17. An acknowledgement of the SRT server reaches the caller, and every link learns of it. The receiver sends it
  once to each connection of the group, that is to each link of the sender at the address where it is seen; the links
  that hear it all relay it unchanged to the SRT caller. The logs are cleared up to the acknowledged number
  as if it had been heard once, however many links relay it.\<close>

theorem ack_reaches_caller:
  assumes rec: "wf_receiver r" "get_group p r = Some g" "os_recv os (tick r) (srt_sock g) = Some buf"
    and snd: "list_all wf_link (links s)" "cs \<noteq> []" "map (\<lambda>c. seen (c_fd c)) cs = map address (conns g)"
    and buf: "be16 buf 0 = SRT_TYPE_ACK" "20 \<le> length buf" "length buf \<le> MTU" "0 \<le> sint (be32 buf 16)"
  shows "out (handle_srt_data os p r) = out r @ [Sent_Many (map (\<lambda>c. (seen (c_fd c), buf)) cs)] \<and>
    (\<exists>s'. hear_each sos buf ts cs s = Inr s' \<and>
       snd_out s' = snd_out s @ replicate (length cs) (To_Srt (srt_caller s) buf) \<and>
       links s' = map (\<lambda>d. conn_register_srt_ack (sint (be32 buf 16))
         (if cptr d \<in> cptr ` set cs then d\<lparr>c_last_rcvd := ts\<rparr> else d)) (links s))"
proof -
  have ack: "is_srt_ack buf (int (length buf))" using buf by (simp add: is_srt_ack_def get_srt_type_def)
  have "conns g \<noteq> []" using snd(2,3) by auto
  moreover have "map (\<lambda>c. (seen (c_fd c), buf)) cs = map (\<lambda>c. (address c, buf)) (conns g)"
    using arg_cong [OF snd(3), of "map (\<lambda>a. (a, buf))"] by (simp add: comp_def)
  ultimately have "out (handle_srt_data os p r) = out r @ [Sent_Many (map (\<lambda>c. (seen (c_fd c), buf)) cs)]"
    using ack_nak_reach_every_connection [OF rec(1,2) _ rec(3) _ buf(3)] ack buf(2) by simp
  with ack_heard_each [OF buf snd(1), of sos ts cs] snd(2) show ?thesis by simp
qed

theorem ack_reaches_caller_witness:
  "out (handle_srt_data (calm_os\<lparr>os_recv := \<lambda>t fd. Some (sample_ack @ put_be32 42)\<rparr>) 0 sample_receiver) =
     [Sent_Many [(sample_addr 1 1, sample_ack @ put_be32 42), (sample_addr 2 1, sample_ack @ put_be32 42)]] \<and>
   (\<exists>s'. hear_each calm_sender_os (sample_ack @ put_be32 42) 200 [busy_link, free_link] sample_sender = Inr s' \<and>
      snd_out s' = replicate 2 (To_Srt zero_addr (sample_ack @ put_be32 42)))"
proof -
  let ?b = "sample_ack @ put_be32 42"
  have b: "be16 ?b 0 = SRT_TYPE_ACK" "20 \<le> length ?b" "length ?b \<le> MTU"
    by (simp_all add: sample_ack_def be16_def const_defs)
  have "length sample_ack = 16" by (simp add: sample_ack_def)
  then have n: "be32 ?b 16 = 42" using be32_put_be32 [of 42 "[]"] be_append_right(2) [of sample_ack 16 "put_be32 42"] by simp
  have s: "list_all wf_link (links sample_sender)" "snd_out sample_sender = []" "srt_caller sample_sender = zero_addr"
    using wf_sample_links by (simp_all add: sample_sender_def idle_sender_def)
  have g: "map (\<lambda>c. seen_fd (c_fd c)) [busy_link, free_link] = map address (conns sample_group)" "out sample_receiver = []"
    by (simp_all add: sample_fds seen_fd_def sample_group_def sample_receiver_def init_receiver_def new_connection_def)
  have "os_recv (calm_os\<lparr>os_recv := \<lambda>t fd. Some ?b\<rparr>) (tick sample_receiver) (srt_sock sample_group) = Some ?b" by simp
  from ack_reaches_caller [OF wf_sample_receiver get_sample_group this s(1) _ g(1) b, of calm_sender_os 200]
  show ?thesis unfolding n s(2,3) g(2) by (auto simp: sample_fds seen_fd_def numeral_2_eq_2)
qed



section \<open>Idle links\<close>

text \<open>C19. A keepalive keeps an idle link alive on both sides. The upkeep of a link that is active and has sent nothing for
  a second sends one keepalive; the receiver counts the connection as heard from, which then times out after 15 seconds and not
  before, and echoes it to the link only; the sender hears the echo, times the link out after 4 seconds and not before, and
  relays nothing to the SRT caller.\<close>

theorem keepalive_keeps_link:
  assumes snd: "get_link l s = Some c" "active t c" "c_last_sent c + IDLE_TIME < t"
    and rec: "find_by_address (seen (c_fd c)) (groups r) = Some (p, Some i)" "get_conn p i r = Some d"
  shows "\<exists>r' d' s' c'. let ka = put_be16 SRTLA_TYPE_KEEPALIVE; s1 = housekeep_link sos t l s in
    to_srtla s1 = to_srtla s @ [To_Srtla (c_fd c) ka] \<and>
    process_batch os now [(seen (c_fd c), ka)] r = Inr r' \<and>
    out r' = out r @ [Sent_To (seen (c_fd c)) (pad32 ka)] \<and> others p r' = others p r \<and>
    get_conn p i r' = Some d' \<and> (\<forall>u. conn_timed_out d' u \<longleftrightarrow> now + 15 < u) \<and>
    hears sos (pad32 ka) ts c s1 = Inr s' \<and> snd_out s' = snd_out s1 \<and>
    get_link l s' = Some c' \<and> (\<forall>u. link_timed_out c' u \<longleftrightarrow> ts + 4 < u)"
proof -
  let ?ka = "put_be16 SRTLA_TYPE_KEEPALIVE"
  define s1 where "s1 = housekeep_link sos t l s"
  define r1 where "r1 = counted BYTES_RECEIVED (of_nat 2) (counted PACKETS_RECEIVED 1 r)"
  have c: "cptr c = l" using get_link_Some [OF snd(1)] by simp
  have "to_srtla s1 = to_srtla s @ [To_Srtla (c_fd c) ?ka]"
    using housekeep_one(3) [OF snd(1), of sos t] snd(2,3) by (simp add: s1_def upkeep_def active_def)
  moreover have ka: "is_srtla_keepalive ?ka (int (length ?ka))"
    using be16_put_be16 [of SRTLA_TYPE_KEEPALIVE "[]"] by (simp add: is_srtla_keepalive_def get_srt_type_def)
  obtain r' d' where r': "process_single_packet os ?ka (seen (c_fd c)) now r1 = Inr r'"
    "out r' = out r1 @ [Sent_To (seen (c_fd c)) (pad32 ?ka)]" "others p r' = others p r1"
    "get_conn p i r' = Some d'" "last_rcvd d' = now"
    using keepalive_echoed [OF _ _ ka, of "seen (c_fd c)" r1 p i d os now] rec
    by (auto simp: r1_def get_conn_def)
  moreover have "process_batch os now [(seen (c_fd c), ?ka)] r = Inr r'"
    using r'(1) by (simp add: r1_def put_be16_def Let_def MTU_def)
  moreover obtain s' where "hears sos (pad32 ?ka) ts c s1 = Inr s'" "snd_out s' = snd_out s1"
    "links s' = links (upd_link l (\<lambda>d. d\<lparr>c_last_rcvd := ts\<rparr>) s1)"
    using keepalive_heard [of sos ts c s1] by (auto simp: upd_link_def c)
  moreover from this(3) have "get_link l s' = get_link l (upd_link l (\<lambda>d. d\<lparr>c_last_rcvd := ts\<rparr>) s1)"
    by (simp add: get_link_def)
  then have "get_link l s' = Some (c\<lparr>c_last_rcvd := ts\<rparr>)"
    using snd by (simp add: get_link_upd) (simp add: s1_def housekeep_link_def active_def snd_keepalive_def send_srtla_def get_link_def)
  ultimately show ?thesis
    unfolding Let_def s1_def [symmetric]
    by (intro exI [of _ r'] exI [of _ d'] exI [of _ s'] exI [of _ "c\<lparr>c_last_rcvd := ts\<rparr>"])
      (auto simp: r1_def others_def conn_timed_out_def link_timed_out_def CONN_TIMEOUT_def SND_CONN_TIMEOUT_def)
qed

theorem keepalive_keeps_link_witness:
  "\<exists>r' s'. process_batch calm_os 100 [(sample_addr 1 1, put_be16 SRTLA_TYPE_KEEPALIVE)] sample_receiver = Inr r' \<and>
     out r' = [Sent_To (sample_addr 1 1) (pad32 (put_be16 SRTLA_TYPE_KEEPALIVE))] \<and>
     hears calm_sender_os (pad32 (put_be16 SRTLA_TYPE_KEEPALIVE)) 101 busy_link
       (housekeep_link calm_sender_os 100 0 sample_sender) = Inr s'"
proof -
  have link: "get_link 0 sample_sender = Some busy_link" "seen_fd (c_fd busy_link) = sample_addr 1 1" "out sample_receiver = []"
    by (simp_all add: get_link_def sample_sender_def sample_fds seen_fd_def sample_receiver_def init_receiver_def)
  have "active 100 busy_link" "c_last_sent busy_link + IDLE_TIME < 100"
    by (simp_all add: active_def link_timed_out_def busy_link_def reg_pkt_def new_link_def const_defs)
  from keepalive_keeps_link [OF link(1) this, of seen_fd, unfolded link(2), OF find_sample_addr(1) get_sample_conn,
      of calm_sender_os calm_os 100 101]
  show ?thesis unfolding Let_def link(3) append_Nil by blast
qed

end
